theory Spec2Isabelle
  imports Main "HOL-Library.AList" "HOL-Library.Sublist"
begin

section \<open>Strings\<close>

text \<open>
  A JavaScript string is modelled as a \<open>string\<close>: one \<open>char\<close> per UTF-16 code unit,
  for code units below 256.  \<open>length\<close> is then the \<open>.length\<close> of the source.
\<close>

definition toLowerChar :: "char \<Rightarrow> char" where
  "toLowerChar c =
     (let n = (of_char c :: nat)
      in if (65 \<le> n \<and> n \<le> 90) \<or> (192 \<le> n \<and> n \<le> 222 \<and> n \<noteq> 215)
         then char_of (n + 32) else c)"

definition toLowerCase :: "string \<Rightarrow> string" where
  "toLowerCase s = map toLowerChar s"

text \<open>\<open>String.prototype.substring(a, b)\<close>: both indices are clamped to the length and
  swapped when out of order.\<close>

definition substring :: "string \<Rightarrow> nat \<Rightarrow> nat \<Rightarrow> string" where
  "substring s a b =
     (let a' = min a (length s); b' = min b (length s);
          lo = min a' b'; hi = max a' b'
      in take (hi - lo) (drop lo s))"

section \<open>Input sanitisation helpers\<close>

text \<open>\<open>escapeHTML\<close>: the replacement callback of \<open>str.replace(/[&<>"']/g, ...)\<close>.\<close>

definition escapeChar :: "char \<Rightarrow> string" where
  "escapeChar ch =
     (if ch = CHR ''&'' then ''&amp;''
      else if ch = CHR ''<'' then ''&lt;''
      else if ch = CHR ''>'' then ''&gt;''
      else if ch = CHR 0x22 then ''&quot;''
      else if ch = CHR 0x27 then ''&#39;''
      else [ch])"

definition escapeHTML :: "string \<Rightarrow> string" where
  "escapeHTML str = concat (map escapeChar str)"

text \<open>The class \<open>\s\<close> of the URL pattern, on code units below 256: TAB, LF, VT, FF, CR,
  SPACE and NBSP.\<close>

definition isSpace :: "char \<Rightarrow> bool" where
  "isSpace c = ((of_char c :: nat) \<in> {9, 10, 11, 12, 13, 32, 160})"

text \<open>
  One attempt of \<open>/(https?:\/\/[^\s]+)/\<close> at the start of a string: the length of the
  match, if there is one.  The optional \<open>s\<close> is taken when present; \<open>[^\s]+\<close> is greedy
  and nothing follows it, so it takes every non-space character.
\<close>

definition matchUrlAt :: "string \<Rightarrow> nat option" where
  "matchUrlAt s =
     (if prefix ''https://'' s then
        (let n = length (takeWhile (\<lambda>c. \<not> isSpace c) (drop 8 s))
         in if 0 < n then Some (8 + n) else None)
      else if prefix ''http://'' s then
        (let n = length (takeWhile (\<lambda>c. \<not> isSpace c) (drop 7 s))
         in if 0 < n then Some (7 + n) else None)
      else None)"

record urlMatch =
  url :: string
  start :: nat
  "end" :: nat

lemma matchUrlAt_pos: "matchUrlAt s = Some n \<Longrightarrow> 0 < n"
  by (auto simp: matchUrlAt_def Let_def split: if_splits)

text \<open>The \<open>while ((match = urlRegex.exec(content)) !== null)\<close> loop: with the \<open>g\<close> flag
  each call searches from \<open>lastIndex\<close>, which a match sets to its end.\<close>

function urlMatchesFrom :: "string \<Rightarrow> nat \<Rightarrow> urlMatch list" where
  "urlMatchesFrom content i =
     (if length content \<le> i then []
      else case matchUrlAt (drop i content) of
             Some n \<Rightarrow>
               \<lparr>url = take n (drop i content), start = i, end = i + n\<rparr>
                 # urlMatchesFrom content (i + n)
           | None \<Rightarrow> urlMatchesFrom content (i + 1))"
  by pat_completeness auto
termination
  by (relation "measure (\<lambda>(content, i). length content - i)")
     (auto dest: matchUrlAt_pos)

declare urlMatchesFrom.simps [simp del]

text \<open>The \<open>for (const urlMatch of urlMatches)\<close> loop, on the pair \<open>(result, lastIndex)\<close>.\<close>

fun reassemble :: "(string \<Rightarrow> string) \<Rightarrow> string \<Rightarrow> urlMatch list \<Rightarrow> string \<times> nat \<Rightarrow> string \<times> nat" where
  "reassemble clean content [] acc = acc"
| "reassemble clean content (m # ms) (result, lastIndex) =
     reassemble clean content ms
       (result @ clean (substring content lastIndex (start m)) @ url m, end m)"

text \<open>\<open>filter.clean\<close> of the profanity library is a parameter, \<open>clean\<close>.\<close>

definition filterProfanityPreservingUrls :: "(string \<Rightarrow> string) \<Rightarrow> string \<Rightarrow> string" where
  "filterProfanityPreservingUrls clean content =
     (let urlMatches = urlMatchesFrom content 0
      in if length urlMatches = 0 then clean content
         else
           (let (result, lastIndex) = reassemble clean content urlMatches ('''', 0)
            in if lastIndex < length content
               then result @ clean (substring content lastIndex (length content))
               else result))"


section \<open>The key-value store\<close>

text \<open>
  The Redis store, one field per key prefix of the source.  Keys with different prefixes
  never collide, and under one prefix the store holds values of the shape the backend
  writes there.  An entry is a value with its expiry time (milliseconds since the epoch),
  if it has one; an entry whose expiry has passed is absent for every command.  Keys are
  the full key strings.  All commands of one request see the same clock value \<open>now\<close>,
  which is also what \<open>Date.now()\<close> returns.
\<close>

type_synonym 'v entry = "'v \<times> int option"
type_synonym 'v kv = "(string \<times> 'v entry) list"

definition live :: "int \<Rightarrow> 'v entry \<Rightarrow> bool" where
  "live now e = (case snd e of None \<Rightarrow> True | Some t \<Rightarrow> now < t)"

text \<open>GET\<close>
definition kv_get :: "int \<Rightarrow> 'v kv \<Rightarrow> string \<Rightarrow> 'v option" where
  "kv_get now m k =
     (case map_of m k of
        Some e \<Rightarrow> if live now e then Some (fst e) else None
      | None \<Rightarrow> None)"

text \<open>EXISTS\<close>
definition kv_exists :: "int \<Rightarrow> 'v kv \<Rightarrow> string \<Rightarrow> bool" where
  "kv_exists now m k = (kv_get now m k \<noteq> None)"

text \<open>SET without options: the key loses any expiry.\<close>
definition kv_set :: "'v kv \<Rightarrow> string \<Rightarrow> 'v \<Rightarrow> 'v kv" where
  "kv_set m k v = AList.update k (v, None) m"

text \<open>SET with \<open>{ ex: seconds }\<close>\<close>
definition kv_setex :: "int \<Rightarrow> 'v kv \<Rightarrow> string \<Rightarrow> 'v \<Rightarrow> int \<Rightarrow> 'v kv" where
  "kv_setex now m k v seconds = AList.update k (v, Some (now + seconds * 1000)) m"

text \<open>DEL\<close>
definition kv_del :: "'v kv \<Rightarrow> string \<Rightarrow> 'v kv" where
  "kv_del m k = AList.delete k m"

text \<open>EXPIRE: only a key that exists gets the new expiry.\<close>
definition kv_expire :: "int \<Rightarrow> 'v kv \<Rightarrow> string \<Rightarrow> int \<Rightarrow> 'v kv" where
  "kv_expire now m k seconds =
     (case kv_get now m k of
        Some v \<Rightarrow> AList.update k (v, Some (now + seconds * 1000)) m
      | None \<Rightarrow> m)"

text \<open>SETNX: the flag says whether the key was created.\<close>
definition kv_setnx :: "int \<Rightarrow> 'v kv \<Rightarrow> string \<Rightarrow> 'v \<Rightarrow> bool \<times> 'v kv" where
  "kv_setnx now m k v =
     (if kv_exists now m k then (False, m) else (True, AList.update k (v, None) m))"

text \<open>INCR: a missing key counts from 0 and gets no expiry; an existing one keeps its
  expiry.\<close>
definition kv_incr :: "int \<Rightarrow> int kv \<Rightarrow> string \<Rightarrow> int \<times> int kv" where
  "kv_incr now m k =
     (case map_of m k of
        Some e \<Rightarrow>
          if live now e then (fst e + 1, AList.update k (fst e + 1, snd e) m)
          else (1, AList.update k (1, None) m)
      | None \<Rightarrow> (1, AList.update k (1, None) m))"

text \<open>SCAN to completion with \<open>match: prefix*\<close>\<close>
definition kv_scan_prefix :: "int \<Rightarrow> 'v kv \<Rightarrow> string \<Rightarrow> string list" where
  "kv_scan_prefix now m p = filter (\<lambda>k. prefix p k \<and> kv_exists now m k) (map fst m)"

text \<open>SCAN to completion with \<open>match: prefix*suffix\<close>\<close>
definition kv_scan_around :: "int \<Rightarrow> 'v kv \<Rightarrow> string \<Rightarrow> string \<Rightarrow> string list" where
  "kv_scan_around now m p q =
     filter (\<lambda>k. prefix p k \<and> suffix q (drop (length p) k) \<and> kv_exists now m k) (map fst m)"

section \<open>Type definitions of the chat backend\<close>

text \<open>Where a field of an interface has the name of a variable of the handlers
  (\<open>username\<close>, \<open>content\<close>, \<open>token\<close>, \<open>id\<close>), the field carries the
  interface as a prefix.\<close>

record User =
  user_username :: string
  lastActive :: int

datatype RoomType = Public | Private

record Room =
  room_id :: string
  room_name :: string
  room_type :: "RoomType option"
  createdAt :: int
  userCount :: int
  members :: "string list option"

record RoomWithUsers = Room +
  users :: "string list"

record Message =
  msg_id :: string
  msg_roomId :: string
  msg_username :: string
  msg_content :: string
  msg_timestamp :: int

record TokenData =
  td_token :: string
  expiredAt :: int

record AuthResult =
  valid :: bool
  expired :: "bool option"

text \<open>
  What a read of a key under \<open>chat:token:\<close> can return: a creation timestamp
  (user-scoped token keys), a string (token to username, username to token), the last-token
  record, or an object of an older format, of which only a string-valued \<open>username\<close>
  field matters.  The client parses what it reads as JSON when it can, so a stored text
  that is itself JSON comes back as that value: a boolean, \<open>null\<close> or a number.
\<close>

datatype TokenValue =
    TNum int
  | TStr string
  | TData TokenData
  | TObj "string option"
  | TBool bool
  | TNull

record store =
  chat_room :: "Room kv"
  chat_messages :: "Message list kv"
  chat_users :: "User kv"
  chat_room_users :: "string list kv"
  chat_presence :: "int kv"
  chat_token :: "TokenValue kv"
  rl :: "int kv"

datatype ResponseBody =
    ErrorBody string
  | SuccessBody
  | TokenBody string
  | MessageBody Message
  | RoomBody Room
  | RoomsBody "RoomWithUsers list"

record Response =
  status :: nat
  body :: ResponseBody

definition createErrorResponse :: "string \<Rightarrow> nat \<Rightarrow> Response" where
  "createErrorResponse message st = \<lparr>status = st, body = ErrorBody message\<rparr>"

text \<open>A missing, \<open>null\<close> or empty string is falsy.\<close>

fun falsy :: "string option \<Rightarrow> bool" where
  "falsy None = True"
| "falsy (Some s) = (s = [])"

subsection \<open>Constants\<close>

definition CHAT_ROOM_PREFIX :: string where "CHAT_ROOM_PREFIX = ''chat:room:''"
definition CHAT_MESSAGES_PREFIX :: string where "CHAT_MESSAGES_PREFIX = ''chat:messages:''"
definition CHAT_USERS_PREFIX :: string where "CHAT_USERS_PREFIX = ''chat:users:''"
definition CHAT_ROOM_USERS_PREFIX :: string where "CHAT_ROOM_USERS_PREFIX = ''chat:room:users:''"
definition CHAT_ROOM_PRESENCE_PREFIX :: string where "CHAT_ROOM_PRESENCE_PREFIX = ''chat:presence:''"
definition USER_TTL_SECONDS :: int where "USER_TTL_SECONDS = 7776000"
definition USER_EXPIRATION_TIME :: int where "USER_EXPIRATION_TIME = 7776000"
definition ROOM_PRESENCE_TTL_SECONDS :: int where "ROOM_PRESENCE_TTL_SECONDS = 86400"
definition MAX_MESSAGE_LENGTH :: nat where "MAX_MESSAGE_LENGTH = 1000"
definition MAX_USERNAME_LENGTH :: nat where "MAX_USERNAME_LENGTH = 30"
definition MIN_USERNAME_LENGTH :: nat where "MIN_USERNAME_LENGTH = 3"
definition AUTH_TOKEN_PREFIX :: string where "AUTH_TOKEN_PREFIX = ''chat:token:''"
definition TOKEN_GRACE_PERIOD :: int where "TOKEN_GRACE_PERIOD = 86400 * 365"
definition RATE_LIMIT_WINDOW_SECONDS :: int where "RATE_LIMIT_WINDOW_SECONDS = 60"
definition RATE_LIMIT_ATTEMPTS :: int where "RATE_LIMIT_ATTEMPTS = 10"
definition RATE_LIMIT_PREFIX :: string where "RATE_LIMIT_PREFIX = ''rl:''"
definition CHAT_BURST_PREFIX :: string where "CHAT_BURST_PREFIX = ''rl:chat:b:''"
definition CHAT_BURST_SHORT_WINDOW_SECONDS :: int where "CHAT_BURST_SHORT_WINDOW_SECONDS = 10"
definition CHAT_BURST_SHORT_LIMIT :: int where "CHAT_BURST_SHORT_LIMIT = 3"
definition CHAT_BURST_LONG_WINDOW_SECONDS :: int where "CHAT_BURST_LONG_WINDOW_SECONDS = 60"
definition CHAT_BURST_LONG_LIMIT :: int where "CHAT_BURST_LONG_LIMIT = 20"
definition CHAT_MIN_INTERVAL_SECONDS :: int where "CHAT_MIN_INTERVAL_SECONDS = 2"


section \<open>Token store\<close>

definition getTokenKey :: "string \<Rightarrow> string" where
  "getTokenKey tok = AUTH_TOKEN_PREFIX @ tok"

definition getUserTokenKey :: "string \<Rightarrow> string \<Rightarrow> string" where
  "getUserTokenKey username tok =
     AUTH_TOKEN_PREFIX @ ''user:'' @ toLowerCase username @ '':'' @ tok"

definition getCurrentTimestamp :: "int \<Rightarrow> int" where
  "getCurrentTimestamp now = now"

text \<open>Truthiness of a value read from a token key.\<close>

fun truthy :: "TokenValue option \<Rightarrow> bool" where
  "truthy None = False"
| "truthy (Some (TNum n)) = (n \<noteq> 0)"
| "truthy (Some (TStr x)) = (x \<noteq> [])"
| "truthy (Some (TData d)) = True"
| "truthy (Some (TObj u)) = True"
| "truthy (Some (TBool b)) = b"
| "truthy (Some TNull) = False"

text \<open>
  \<open>storeToken\<close> sets the token key to the username as a plain string.  What a later read
  of that key returns is decided by the client, which is not part of the sources:
  \<open>deserialize x\<close> is the value it returns for a key that was set to the string \<open>x\<close>
  (\<open>x\<close> itself, unless the text of \<open>x\<close> is JSON).
\<close>

definition storeToken ::
  "(string \<Rightarrow> TokenValue) \<Rightarrow> int \<Rightarrow> store \<Rightarrow> string \<Rightarrow> string \<Rightarrow> store" where
  "storeToken deserialize now s username tok =
     (if tok = [] then s
      else
        (let normalizedUsername = toLowerCase username;
             s1 = s\<lparr>chat_token :=
                     kv_setex now (chat_token s) (getUserTokenKey normalizedUsername tok)
                       (TNum (getCurrentTimestamp now)) USER_EXPIRATION_TIME\<rparr>
         in s1\<lparr>chat_token :=
                 kv_setex now (chat_token s1) (getTokenKey tok)
                   (deserialize normalizedUsername) USER_EXPIRATION_TIME\<rparr>))"

datatype exn = TypeError | Error string

text \<open>
  \<open>deleteToken\<close>.  The value under the token key is used as a username without a check:
  a truthy value that is no string has no \<open>toLowerCase\<close>, and the call throws after the
  token key is gone.  The fallback deletes every key \<open>chat:token:user:*:{token}\<close>.
\<close>

definition deleteToken :: "int \<Rightarrow> store \<Rightarrow> string \<Rightarrow> exn option \<times> store" where
  "deleteToken now s tok =
     (if tok = [] then (None, s)
      else
        (let tokenKey = getTokenKey tok;
             username = kv_get now (chat_token s) tokenKey;
             s1 = s\<lparr>chat_token := kv_del (chat_token s) tokenKey\<rparr>
         in if truthy username then
              (case username of
                 Some (TStr u) \<Rightarrow>
                   (None, s1\<lparr>chat_token := kv_del (chat_token s1) (getUserTokenKey u tok)\<rparr>)
               | _ \<Rightarrow> (Some TypeError, s1))
            else
              (let keysToDelete =
                     kv_scan_around now (chat_token s1) (AUTH_TOKEN_PREFIX @ ''user:'') ('':'' @ tok)
               in (None, s1\<lparr>chat_token := foldl kv_del (chat_token s1) keysToDelete\<rparr>))))"

definition getUsernameForToken :: "int \<Rightarrow> store \<Rightarrow> string \<Rightarrow> TokenValue option" where
  "getUsernameForToken now s tok =
     (if tok = [] then None else kv_get now (chat_token s) (getTokenKey tok))"

text \<open>The username a token key maps to: a string, or the \<open>username\<close> field of an object.\<close>

fun mappedLowerOf :: "TokenValue option \<Rightarrow> string option" where
  "mappedLowerOf (Some (TStr u)) = Some (toLowerCase u)"
| "mappedLowerOf (Some (TObj (Some u))) = Some (toLowerCase u)"
| "mappedLowerOf _ = None"

definition validateAuth ::
  "int \<Rightarrow> store \<Rightarrow> string option \<Rightarrow> string option \<Rightarrow> bool \<Rightarrow> AuthResult \<times> store" where
  "validateAuth now s username tok allowExpired =
     (if falsy username \<or> falsy tok then (\<lparr>valid = False, expired = None\<rparr>, s)
      else
        (let normalizedUsername = toLowerCase (the username);
             t = the tok;
             userTokenKey = getUserTokenKey normalizedUsername t
         in if kv_exists now (chat_token s) userTokenKey then
              (let s1 = s\<lparr>chat_token := kv_expire now (chat_token s) userTokenKey USER_TTL_SECONDS\<rparr>;
                   s2 = s1\<lparr>chat_token := kv_expire now (chat_token s1) (getTokenKey t) USER_TTL_SECONDS\<rparr>
               in (\<lparr>valid = True, expired = Some False\<rparr>, s2))
            else if mappedLowerOf (getUsernameForToken now s t) = Some normalizedUsername then
              (let s1 = s\<lparr>chat_token := kv_expire now (chat_token s) (getTokenKey t) USER_TTL_SECONDS\<rparr>;
                   s2 = s1\<lparr>chat_token :=
                          kv_setex now (chat_token s1) userTokenKey
                            (TNum (getCurrentTimestamp now)) USER_TTL_SECONDS\<rparr>
               in (\<lparr>valid = True, expired = Some False\<rparr>, s2))
            else
              (let legacyKey = AUTH_TOKEN_PREFIX @ normalizedUsername
               in if kv_get now (chat_token s) legacyKey = Some (TStr t) then
                    (let s1 = s\<lparr>chat_token := kv_expire now (chat_token s) legacyKey USER_TTL_SECONDS\<rparr>;
                         s2 = s1\<lparr>chat_token :=
                                kv_setex now (chat_token s1) userTokenKey
                                  (TNum (getCurrentTimestamp now)) USER_TTL_SECONDS\<rparr>
                     in (\<lparr>valid = True, expired = Some False\<rparr>, s2))
                  else if allowExpired then
                    (let lastTokenKey = AUTH_TOKEN_PREFIX @ ''last:'' @ normalizedUsername
                     in case kv_get now (chat_token s) lastTokenKey of
                          Some (TData parsedData) \<Rightarrow>
                            (let gracePeriodEnd = expiredAt parsedData + TOKEN_GRACE_PERIOD * 1000
                             in if td_token parsedData = t \<and> now < gracePeriodEnd
                                then (\<lparr>valid = True, expired = Some True\<rparr>, s)
                                else (\<lparr>valid = False, expired = None\<rparr>, s))
                        | _ \<Rightarrow> (\<lparr>valid = False, expired = None\<rparr>, s))
                  else (\<lparr>valid = False, expired = None\<rparr>, s))))"

definition storeLastValidToken :: "int \<Rightarrow> store \<Rightarrow> string \<Rightarrow> string \<Rightarrow> int \<Rightarrow> int \<Rightarrow> store" where
  "storeLastValidToken now s username tok expiredAtMs ttlSeconds =
     (let lastTokenKey = AUTH_TOKEN_PREFIX @ ''last:'' @ toLowerCase username;
          tokenData = \<lparr>td_token = tok, expiredAt = expiredAtMs\<rparr>
      in s\<lparr>chat_token := kv_setex now (chat_token s) lastTokenKey (TData tokenData) ttlSeconds\<rparr>)"

record RefreshTokenBody =
  rt_username :: "string option"
  oldToken :: "string option"

text \<open>\<open>handleRefreshToken\<close>; \<open>authToken\<close> is what \<open>generateAuthToken()\<close> returns, and
  \<open>deserialize\<close> is the client's reading of a stored string, as for \<open>storeToken\<close>.\<close>

definition handleRefreshToken ::
  "(string \<Rightarrow> TokenValue) \<Rightarrow> int \<Rightarrow> string \<Rightarrow> store \<Rightarrow> RefreshTokenBody \<Rightarrow> Response \<times> store" where
  "handleRefreshToken deserialize now authToken s data =
     (if falsy (rt_username data) \<or> falsy (oldToken data)
      then (createErrorResponse ''Username and oldToken are required'' 400, s)
      else
        (let username = toLowerCase (the (rt_username data));
             old = the (oldToken data);
             userKey = CHAT_USERS_PREFIX @ username
         in case kv_get now (chat_users s) userKey of
              None \<Rightarrow> (createErrorResponse ''User not found'' 404, s)
            | Some userData \<Rightarrow>
                (let (validationResult, s1) = validateAuth now s (Some username) (Some old) True
                 in if \<not> valid validationResult
                    then (createErrorResponse ''Invalid authentication token'' 401, s1)
                    else
                      (let s2 = storeLastValidToken now s1 username old now TOKEN_GRACE_PERIOD;
                           (thrown, s3) = deleteToken now s2 old
                       in case thrown of
                            Some e \<Rightarrow> (createErrorResponse ''Failed to refresh token'' 500, s3)
                          | None \<Rightarrow>
                              (let tokenKey = AUTH_TOKEN_PREFIX @ username;
                                   s4 = s3\<lparr>chat_token :=
                                          kv_setex now (chat_token s3) tokenKey (deserialize authToken)
                                            USER_EXPIRATION_TIME\<rparr>;
                                   s5 = storeToken deserialize now s4 username authToken
                               in (\<lparr>status = 201, body = TokenBody authToken\<rparr>, s5))))))"

section \<open>Rate limiting helpers\<close>

text \<open>
  \<open>checkRateLimit\<close>.  Any of its three store commands may throw; \<open>fails\<close> says which do.
  A command that throws leaves the store as it was.  The counter is a number, and
  \<open>!current\<close> holds for a missing counter and for 0.
\<close>

datatype RedisCommand = GET | SET | INCR

definition checkRateLimit ::
  "(RedisCommand \<Rightarrow> bool) \<Rightarrow> int \<Rightarrow> store \<Rightarrow> string \<Rightarrow> string \<Rightarrow> bool \<times> store" where
  "checkRateLimit fails now s action identifier =
     (let key = RATE_LIMIT_PREFIX @ action @ '':'' @ identifier
      in if fails GET then (True, s)
         else
           (case kv_get now (rl s) key of
              None \<Rightarrow>
                if fails SET then (True, s)
                else (True, s\<lparr>rl := kv_setex now (rl s) key 1 RATE_LIMIT_WINDOW_SECONDS\<rparr>)
            | Some current \<Rightarrow>
                if current = 0 then
                  (if fails SET then (True, s)
                   else (True, s\<lparr>rl := kv_setex now (rl s) key 1 RATE_LIMIT_WINDOW_SECONDS\<rparr>))
                else
                  (let count = current
                   in if count \<ge> RATE_LIMIT_ATTEMPTS then (False, s)
                      else if fails INCR then (True, s)
                      else (True, s\<lparr>rl := snd (kv_incr now (rl s) key)\<rparr>))))"


section \<open>Example data\<close>

definition emptyStore :: store where
  "emptyStore = \<lparr>chat_room = [], chat_messages = [], chat_users = [], chat_room_users = [],
     chat_presence = [], chat_token = [], rl = []\<rparr>"

definition directRecord :: "int \<Rightarrow> store \<Rightarrow> string \<Rightarrow> string \<Rightarrow> bool" where
  "directRecord now s u t = kv_exists now (chat_token s) (getUserTokenKey u t)"

definition reverseRecord :: "int \<Rightarrow> store \<Rightarrow> string \<Rightarrow> string \<Rightarrow> bool" where
  "reverseRecord now s u t = (mappedLowerOf (kv_get now (chat_token s) (getTokenKey t)) = Some u)"

definition legacyRecord :: "int \<Rightarrow> store \<Rightarrow> string \<Rightarrow> string \<Rightarrow> bool" where
  "legacyRecord now s u t = (kv_get now (chat_token s) (AUTH_TOKEN_PREFIX @ u) = Some (TStr t))"

definition graceRecord :: "int \<Rightarrow> store \<Rightarrow> string \<Rightarrow> string \<Rightarrow> bool" where
  "graceRecord now s u t =
     (case kv_get now (chat_token s) (AUTH_TOKEN_PREFIX @ ''last:'' @ u) of
        Some (TData d) \<Rightarrow> td_token d = t \<and> now < expiredAt d + TOKEN_GRACE_PERIOD * 1000
      | _ \<Rightarrow> False)"

definition validate_spec :: "int \<Rightarrow> store \<Rightarrow> string \<Rightarrow> string \<Rightarrow> bool \<Rightarrow> AuthResult" where
  "validate_spec now s u t allowExpired =
     (if directRecord now s u t then \<lparr>valid = True, expired = Some False\<rparr>
      else if reverseRecord now s u t then \<lparr>valid = True, expired = Some False\<rparr>
      else if legacyRecord now s u t then \<lparr>valid = True, expired = Some False\<rparr>
      else if allowExpired \<and> graceRecord now s u t then \<lparr>valid = True, expired = Some True\<rparr>
      else \<lparr>valid = False, expired = None\<rparr>)"

definition tokenStore :: store where
  "tokenStore = emptyStore\<lparr>chat_token :=
     [(''chat:token:user:alice:t1'', (TNum 5, Some 1000)),
      (''chat:token:t2'', (TStr ''alice'', Some 1000)),
      (''chat:token:bob'', (TStr ''t3'', None)),
      (''chat:token:last:carol'', (TData \<lparr>td_token = ''t4'', expiredAt = 0\<rparr>, None))]\<rparr>"

text \<open>What generateAuthToken returns: randomBytes(32).toString("hex")\<close>

definition isHexDigit :: "char \<Rightarrow> bool" where
  "isHexDigit c = (c \<in> set ''0123456789abcdef'')"

definition generatedToken :: "string \<Rightarrow> bool" where
  "generatedToken t = (length t = 64 \<and> list_all isHexDigit t)"

definition refreshStore :: store where
  "refreshStore = emptyStore\<lparr>
     chat_users := [(''chat:users:alice'', (\<lparr>user_username = ''alice'', lastActive = 0\<rparr>, None))],
     chat_token :=
       [(''chat:token:user:alice:0a'', (TNum 5, Some 9000)),
        (''chat:token:0a'', (TStr ''alice'', Some 9000))]\<rparr>"

definition newToken :: string where
  "newToken = ''00112233445566778899aabbccddeeff00112233445566778899aabbccddeeff''"

text \<open>A client that reads the text \<open>true\<close> back as the boolean, and the other strings of the
  example as themselves.\<close>

definition trueAsBoolean :: "string \<Rightarrow> TokenValue" where
  "trueAsBoolean x = (if x = ''true'' then TBool True else TStr x)"

definition oldHex :: string where
  "oldHex = ''ffeeddccbbaa99887766554433221100ffeeddccbbaa99887766554433221100''"

text \<open>The store after the user \<open>true\<close> signed up at time 0 and got the token \<open>oldHex\<close>: the
  user record, the legacy key, the two keys \<open>storeToken\<close> writes and the last-token record.\<close>

definition trueStore :: store where
  "trueStore = emptyStore\<lparr>
     chat_users := [(''chat:users:true'', (\<lparr>user_username = ''true'', lastActive = 0\<rparr>, None))],
     chat_token :=
       [(AUTH_TOKEN_PREFIX @ ''true'', (TStr oldHex, Some 7776000000)),
        (getUserTokenKey ''true'' oldHex, (TNum 0, Some 7776000000)),
        (getTokenKey oldHex, (TBool True, Some 7776000000)),
        (AUTH_TOKEN_PREFIX @ ''last:true'',
           (TData \<lparr>td_token = oldHex, expiredAt = 7776000000\<rparr>, Some 39312000000))]\<rparr>"

section \<open>Identifier patterns\<close>

definition isAlpha :: "char \<Rightarrow> bool" where
  "isAlpha c = (let n = (of_char c :: nat) in (65 \<le> n \<and> n \<le> 90) \<or> (97 \<le> n \<and> n \<le> 122))"

definition isDigit :: "char \<Rightarrow> bool" where
  "isDigit c = (let n = (of_char c :: nat) in 48 \<le> n \<and> n \<le> 57)"

definition isAlnum :: "char \<Rightarrow> bool" where
  "isAlnum c = (isAlpha c \<or> isDigit c)"

text \<open>
  \<open>USERNAME_REGEX = /^[a-z](?:[a-z0-9]|[-_](?=[a-z0-9])){2,29}$/i\<close>.  Every repeated
  unit is one character: a letter or digit, or a hyphen or underscore with a letter or
  digit after it.
\<close>

fun usernameUnits :: "string \<Rightarrow> bool" where
  "usernameUnits [] = True"
| "usernameUnits (c # cs) =
     (if isAlnum c then usernameUnits cs
      else if c = CHR ''-'' \<or> c = CHR ''_'' then
        (case cs of [] \<Rightarrow> False | d # ds \<Rightarrow> isAlnum d \<and> usernameUnits cs)
      else False)"

definition USERNAME_REGEX_test :: "string \<Rightarrow> bool" where
  "USERNAME_REGEX_test username =
     (case username of
        [] \<Rightarrow> False
      | c # cs \<Rightarrow> isAlpha c \<and> 2 \<le> length cs \<and> length cs \<le> 29 \<and> usernameUnits cs)"

text \<open>\<open>ROOM_ID_REGEX = /^[a-z0-9]+$/i\<close>\<close>

definition ROOM_ID_REGEX_test :: "string \<Rightarrow> bool" where
  "ROOM_ID_REGEX_test roomId = (roomId \<noteq> [] \<and> list_all isAlnum roomId)"

text \<open>\<open>assertValidUsername\<close> and \<open>assertValidRoomId\<close> throw an \<open>Error\<close> with these
  messages; \<open>None\<close> is a normal return.\<close>

definition assertValidUsername :: "string \<Rightarrow> exn option" where
  "assertValidUsername username =
     (if \<not> USERNAME_REGEX_test username
      then Some (Error ''Invalid username: use 3-30 letters/numbers; '-' or '_' allowed between characters; no spaces or symbols'')
      else None)"

definition assertValidRoomId :: "string \<Rightarrow> exn option" where
  "assertValidRoomId roomId =
     (if \<not> ROOM_ID_REGEX_test roomId then Some (Error ''Invalid room ID format'') else None)"

fun exnMessage :: "exn \<Rightarrow> string" where
  "exnMessage (Error m) = m"
| "exnMessage TypeError = ''TypeError''"

section \<open>Presence and room counts\<close>

text \<open>The last element of \<open>key.split(":")\<close>.\<close>

definition lastPart :: "string \<Rightarrow> string" where
  "lastPart key = rev (takeWhile (\<lambda>c. c \<noteq> CHR '':'') (rev key))"

definition getActiveUsersInRoom :: "int \<Rightarrow> store \<Rightarrow> string \<Rightarrow> string list" where
  "getActiveUsersInRoom now s roomId =
     map lastPart
       (kv_scan_prefix now (chat_presence s) (CHAT_ROOM_PRESENCE_PREFIX @ roomId @ '':''))"

definition getActiveUsersAndPrune :: "int \<Rightarrow> store \<Rightarrow> string \<Rightarrow> string list \<times> store" where
  "getActiveUsersAndPrune now s roomId =
     (let activeUsers = getActiveUsersInRoom now s roomId;
          roomUsersKey = CHAT_ROOM_USERS_PREFIX @ roomId;
          oldSetMembers = (case kv_get now (chat_room_users s) roomUsersKey of
                             None \<Rightarrow> [] | Some ms \<Rightarrow> ms)
      in if length oldSetMembers > 0
         then (activeUsers, s\<lparr>chat_room_users := kv_del (chat_room_users s) roomUsersKey\<rparr>)
         else (activeUsers, s))"


text \<open>\<open>getDetailedRooms\<close>: the rooms under the scanned keys, each with its active users.
  Counting the users of a room prunes its legacy user set.\<close>

fun detailRooms :: "int \<Rightarrow> store \<Rightarrow> string list \<Rightarrow> RoomWithUsers list \<times> store" where
  "detailRooms now s [] = ([], s)"
| "detailRooms now s (key # keys) =
     (case kv_get now (chat_room s) key of
        None \<Rightarrow> detailRooms now s keys
      | Some roomObj \<Rightarrow>
          (let (activeUsers, s1) = getActiveUsersAndPrune now s (room_id roomObj);
               (rest, s2) = detailRooms now s1 keys
           in (Room.extend (roomObj\<lparr>userCount := int (length activeUsers)\<rparr>)
                 (RoomWithUsers.fields activeUsers) # rest, s2)))"

definition getDetailedRooms :: "int \<Rightarrow> store \<Rightarrow> RoomWithUsers list \<times> store" where
  "getDetailedRooms now s = detailRooms now s (kv_scan_prefix now (chat_room s) CHAT_ROOM_PREFIX)"

section \<open>Room visibility\<close>

definition filterRoomsForUser :: "RoomWithUsers list \<Rightarrow> string option \<Rightarrow> RoomWithUsers list" where
  "filterRoomsForUser rooms username =
     (if falsy username
      then filter (\<lambda>room. room_type room = None \<or> room_type room = Some Public) rooms
      else
        (let lower = toLowerCase (the username)
         in filter (\<lambda>room.
              if room_type room = None \<or> room_type room = Some Public then True
              else if room_type room = Some Private \<and> members room \<noteq> None
                   then lower \<in> set (the (members room))
              else False) rooms))"



section \<open>Room handlers\<close>

text \<open>\<open>handleGetRooms\<close>; \<open>usernameParam\<close> is the \<open>username\<close> query parameter.\<close>

definition handleGetRooms :: "int \<Rightarrow> store \<Rightarrow> string option \<Rightarrow> Response \<times> store" where
  "handleGetRooms now s usernameParam =
     (let username = (case usernameParam of
                        None \<Rightarrow> None
                      | Some u \<Rightarrow> if toLowerCase u = [] then None else Some (toLowerCase u));
          (allRooms, s1) = getDetailedRooms now s;
          visibleRooms = filter (\<lambda>room.
              if room_type room = None \<or> room_type room = Some Public then True
              else if room_type room = Some Private \<and> members room \<noteq> None \<and> username \<noteq> None
                   then the username \<in> set (the (members room))
              else False) allRooms
      in (\<lparr>status = 200, body = RoomsBody visibleRooms\<rparr>, s1))"




definition pubRoom :: RoomWithUsers where
  "pubRoom = \<lparr>room_id = ''r0'', room_name = ''lobby'', room_type = Some Public, createdAt = 0,
      userCount = 0, members = None, users = []\<rparr>"

definition privRoom :: RoomWithUsers where
  "privRoom = \<lparr>room_id = ''r1'', room_name = ''@alice, @bob'', room_type = Some Private, createdAt = 0,
      userCount = 0, members = Some [''alice'', ''bob''], users = []\<rparr>"

definition room2 :: Room where
  "room2 = \<lparr>room_id = ''r1'', room_name = ''@alice, @bob'', room_type = Some Private, createdAt = 0,
      userCount = 2, members = Some [''alice'', ''bob'']\<rparr>"

definition room3 :: Room where
  "room3 = \<lparr>room_id = ''r2'', room_name = ''@alice, @bob, @carol'', room_type = Some Private,
      createdAt = 0, userCount = 3, members = Some [''alice'', ''bob'', ''carol'']\<rparr>"



text \<open>The entry \<open>getDetailedRooms\<close> builds for a stored room: the room with its active
  users and their number.\<close>

definition roomEntry :: "int \<Rightarrow> store \<Rightarrow> Room \<Rightarrow> RoomWithUsers" where
  "roomEntry now s roomObj =
     (let activeUsers = getActiveUsersInRoom now s (room_id roomObj)
      in Room.extend (roomObj\<lparr>userCount := int (length activeUsers)\<rparr>)
           (RoomWithUsers.fields activeUsers))"

definition lobby :: Room where
  "lobby = \<lparr>room_id = ''r0'', room_name = ''lobby'', room_type = Some Public, createdAt = 0,
      userCount = 0, members = None\<rparr>"

text \<open>A public and a private room; Alice is present in the private one.\<close>

definition listStore :: store where
  "listStore = emptyStore\<lparr>
     chat_room := [(''chat:room:r0'', (lobby, None)), (''chat:room:r1'', (room2, None))],
     chat_presence := [(''chat:presence:r1:alice'', (0, Some 86400000))]\<rparr>"



section \<open>Lists in the store\<close>

text \<open>LPUSH, LTRIM and LRANGE with non-negative indices.  A list keeps its expiry.\<close>

definition kv_lpush :: "int \<Rightarrow> 'a list kv \<Rightarrow> string \<Rightarrow> 'a \<Rightarrow> 'a list kv" where
  "kv_lpush now m k v =
     (case map_of m k of
        Some e \<Rightarrow>
          if live now e then AList.update k (v # fst e, snd e) m
          else AList.update k ([v], None) m
      | None \<Rightarrow> AList.update k ([v], None) m)"

definition kv_lrange :: "int \<Rightarrow> 'a list kv \<Rightarrow> string \<Rightarrow> nat \<Rightarrow> nat \<Rightarrow> 'a list" where
  "kv_lrange now m k first stop =
     (case kv_get now m k of
        Some xs \<Rightarrow> take (stop + 1 - first) (drop first xs)
      | None \<Rightarrow> [])"

definition kv_ltrim :: "int \<Rightarrow> 'a list kv \<Rightarrow> string \<Rightarrow> nat \<Rightarrow> nat \<Rightarrow> 'a list kv" where
  "kv_ltrim now m k first stop =
     (case map_of m k of
        Some e \<Rightarrow>
          if live now e
          then AList.update k (take (stop + 1 - first) (drop first (fst e)), snd e) m
          else m
      | None \<Rightarrow> m)"

section \<open>Users and presence\<close>

definition refreshRoomPresence :: "int \<Rightarrow> store \<Rightarrow> string \<Rightarrow> string \<Rightarrow> store" where
  "refreshRoomPresence now s roomId username =
     (let presenceKey = CHAT_ROOM_PRESENCE_PREFIX @ roomId @ '':'' @ username
      in if kv_exists now (chat_presence s) presenceKey
         then s\<lparr>chat_presence :=
                 kv_expire now (chat_presence s) presenceKey ROOM_PRESENCE_TTL_SECONDS\<rparr>
         else s)"

text \<open>
  \<open>ensureUserExists\<close> returns the user or throws an \<open>Error\<close>.  \<open>filter.isProfane\<close> of the
  profanity library is a parameter, \<open>isProfane\<close>.
\<close>

definition ensureUserExists ::
  "(string \<Rightarrow> bool) \<Rightarrow> int \<Rightarrow> store \<Rightarrow> string \<Rightarrow> (exn + User) \<times> store" where
  "ensureUserExists isProfane now s username =
     (let userKey = CHAT_USERS_PREFIX @ username
      in if isProfane username
           then (Inl (Error ''Username contains inappropriate language''), s)
         else if length username < MIN_USERNAME_LENGTH
           then (Inl (Error ''Username must be at least 3 characters''), s)
         else if length username > MAX_USERNAME_LENGTH
           then (Inl (Error ''Username must be 30 characters or less''), s)
         else if \<not> USERNAME_REGEX_test username
           then (Inl (Error ''Invalid username format''), s)
         else
           (case kv_get now (chat_users s) userKey of
              Some userData \<Rightarrow> (Inr userData, s)
            | None \<Rightarrow>
                (let newUser = \<lparr>user_username = username, lastActive = getCurrentTimestamp now\<rparr>;
                     (created, m) = kv_setnx now (chat_users s) userKey newUser;
                     s1 = s\<lparr>chat_users := m\<rparr>
                 in if created then (Inr newUser, s1)
                    else
                      (case kv_get now (chat_users s1) userKey of
                         Some userData \<Rightarrow> (Inr userData, s1)
                       | None \<Rightarrow>
                           (Inl (Error ''Failed to ensure user existence due to race condition.''),
                            s1)))))"

text \<open>\<open>String.prototype.includes\<close>\<close>

fun str_includes :: "string \<Rightarrow> string \<Rightarrow> bool" where
  "str_includes [] sub = (sub = [])"
| "str_includes (c # cs) sub = (prefix sub (c # cs) \<or> str_includes cs sub)"

section \<open>Sending a message\<close>

record SendMessageBody =
  sm_roomId :: string
  sm_username :: string
  sm_content :: string

text \<open>
  The block ``Burst rate-limit'' of \<open>handleSendMessage\<close>: \<open>Some\<close> response when the handler
  returns from inside the block, \<open>None\<close> when it goes on.  Each counter is incremented
  before it is compared with its limit.
\<close>

definition burstRateLimit :: "int \<Rightarrow> store \<Rightarrow> string \<Rightarrow> string \<Rightarrow> Response option \<times> store" where
  "burstRateLimit now s roomId username =
     (let roomKey = CHAT_ROOM_PREFIX @ roomId
      in case kv_get now (chat_room s) roomKey of
           None \<Rightarrow> (Some (createErrorResponse ''Room not found'' 404), s)
         | Some roomObj \<Rightarrow>
             (let isPublicRoom = (room_type roomObj = None \<or> room_type roomObj = Some Public)
              in if isPublicRoom then
                   (let shortKey = CHAT_BURST_PREFIX @ ''s:'' @ roomId @ '':'' @ username;
                        longKey = CHAT_BURST_PREFIX @ ''l:'' @ roomId @ '':'' @ username;
                        lastKey = CHAT_BURST_PREFIX @ ''last:'' @ roomId @ '':'' @ username;
                        (shortCount, m1) = kv_incr now (rl s) shortKey;
                        m2 = (if shortCount = 1
                              then kv_expire now m1 shortKey CHAT_BURST_SHORT_WINDOW_SECONDS
                              else m1)
                    in if shortCount > CHAT_BURST_SHORT_LIMIT
                       then (Some (createErrorResponse
                                ''You're sending messages too quickly. Please slow down.'' 429),
                             s\<lparr>rl := m2\<rparr>)
                       else
                         (let (longCount, m3) = kv_incr now m2 longKey;
                              m4 = (if longCount = 1
                                    then kv_expire now m3 longKey CHAT_BURST_LONG_WINDOW_SECONDS
                                    else m3)
                          in if longCount > CHAT_BURST_LONG_LIMIT
                             then (Some (createErrorResponse
                                      ''Too many messages in a short period. Please wait a moment.'' 429),
                                   s\<lparr>rl := m4\<rparr>)
                             else
                               (let nowSeconds = now div 1000;
                                    lastSent = kv_get now m4 lastKey
                                in if (case lastSent of
                                         Some l \<Rightarrow> l \<noteq> 0 \<and> nowSeconds - l < CHAT_MIN_INTERVAL_SECONDS
                                       | None \<Rightarrow> False)
                                   then (Some (createErrorResponse
                                            ''Please wait a moment before sending another message.'' 429),
                                         s\<lparr>rl := m4\<rparr>)
                                   else (None,
                                         s\<lparr>rl := kv_setex now m4 lastKey nowSeconds
                                                    CHAT_BURST_LONG_WINDOW_SECONDS\<rparr>))))
                 else (None, s)))"

text \<open>
  \<open>handleSendMessage\<close>; \<open>messageId\<close> is what \<open>generateId()\<close> returns.  The pushes after
  the message is stored read the room and change nothing in the store.
\<close>

definition handleSendMessage ::
  "(string \<Rightarrow> string) \<Rightarrow> (string \<Rightarrow> bool) \<Rightarrow> int \<Rightarrow> string \<Rightarrow> store \<Rightarrow> SendMessageBody
     \<Rightarrow> Response \<times> store" where
  "handleSendMessage clean isProfane now messageId s data =
     (let roomId = sm_roomId data;
          originalContent = sm_content data;
          username = toLowerCase (sm_username data)
      in case assertValidUsername username of
           Some e \<Rightarrow> (createErrorResponse (exnMessage e) 400, s)
         | None \<Rightarrow>
       (case assertValidRoomId roomId of
           Some e \<Rightarrow> (createErrorResponse (exnMessage e) 400, s)
         | None \<Rightarrow>
       (if originalContent = [] then (createErrorResponse ''Content is required'' 400, s)
        else
          (let content = escapeHTML (filterProfanityPreservingUrls clean originalContent)
           in case burstRateLimit now s roomId username of
                (Some response, s1) \<Rightarrow> (response, s1)
              | (None, s1) \<Rightarrow>
            (if \<not> kv_exists now (chat_room s1) (CHAT_ROOM_PREFIX @ roomId)
             then (createErrorResponse ''Room not found'' 404, s1)
             else
               (case ensureUserExists isProfane now s1 username of
                  (Inl e, s2) \<Rightarrow>
                    (if exnMessage e = ''Username contains inappropriate language''
                       then (createErrorResponse ''Username contains inappropriate language'' 400, s2)
                     else if str_includes (exnMessage e) ''race condition''
                       then (createErrorResponse
                               ''Failed to send message due to temporary issue, please try again.'' 500, s2)
                     else (createErrorResponse ''Failed to verify or create user'' 500, s2))
                | (Inr userData, s2) \<Rightarrow>
                    (if length content > MAX_MESSAGE_LENGTH
                     then (createErrorResponse
                             ''Message exceeds maximum length of 1000 characters'' 400, s2)
                     else
                       (let messagesKey = CHAT_MESSAGES_PREFIX @ roomId;
                            lastMessagesRaw = kv_lrange now (chat_messages s2) messagesKey 0 0
                        in if (case lastMessagesRaw of
                                 [] \<Rightarrow> False
                               | lastMsgObj # _ \<Rightarrow>
                                   msg_username lastMsgObj = username
                                   \<and> msg_content lastMsgObj = content)
                           then (createErrorResponse ''Duplicate message detected'' 400, s2)
                           else
                             (let message = \<lparr>msg_id = messageId, msg_roomId = roomId,
                                             msg_username = username, msg_content = content,
                                             msg_timestamp = getCurrentTimestamp now\<rparr>;
                                  s3 = s2\<lparr>chat_messages :=
                                          kv_lpush now (chat_messages s2) messagesKey message\<rparr>;
                                  s4 = s3\<lparr>chat_messages :=
                                          kv_ltrim now (chat_messages s3) messagesKey 0 99\<rparr>;
                                  updatedUser = userData\<lparr>lastActive := getCurrentTimestamp now\<rparr>;
                                  s5 = s4\<lparr>chat_users :=
                                          kv_set (chat_users s4) (CHAT_USERS_PREFIX @ username) updatedUser\<rparr>;
                                  s6 = s5\<lparr>chat_users :=
                                          kv_expire now (chat_users s5) (CHAT_USERS_PREFIX @ username)
                                            USER_EXPIRATION_TIME\<rparr>;
                                  s7 = refreshRoomPresence now s6 roomId username
                              in (\<lparr>status = 201, body = MessageBody message\<rparr>, s7))))))))))"

text \<open>The duplicate check of handleSendMessage, on the store it reads.\<close>

definition isDuplicate :: "int \<Rightarrow> store \<Rightarrow> string \<Rightarrow> string \<Rightarrow> string \<Rightarrow> bool" where
  "isDuplicate now s roomId username content =
     (case kv_lrange now (chat_messages s) (CHAT_MESSAGES_PREFIX @ roomId) 0 0 of
        [] \<Rightarrow> False
      | lastMsgObj # _ \<Rightarrow> msg_username lastMsgObj = username \<and> msg_content lastMsgObj = content)"

definition hiMessage :: Message where
  "hiMessage = \<lparr>msg_id = ''m0'', msg_roomId = ''r1'', msg_username = ''alice'', msg_content = ''hi'',
     msg_timestamp = 4000\<rparr>"

text \<open>Alice has just sent ``hi'' to the private room r1 and to the public room r0.\<close>

definition msgStore :: store where
  "msgStore = emptyStore\<lparr>
     chat_room := [(''chat:room:r1'', (room2, None)),
                   (''chat:room:r0'', (\<lparr>room_id = ''r0'', room_name = ''lobby'', room_type = Some Public,
                        createdAt = 0, userCount = 0, members = None\<rparr>, None))],
     chat_users := [(''chat:users:alice'', (\<lparr>user_username = ''alice'', lastActive = 4000\<rparr>, None))],
     chat_messages := [(''chat:messages:r1'', ([hiMessage], None)),
                       (''chat:messages:r0'', ([hiMessage\<lparr>msg_roomId := ''r0''\<rparr>], None))],
     rl := [(''rl:chat:b:s:r0:alice'', (1, Some 14000)),
            (''rl:chat:b:l:r0:alice'', (1, Some 64000)),
            (''rl:chat:b:last:r0:alice'', (4, Some 64000))]\<rparr>"

definition shortKey :: "string \<Rightarrow> string \<Rightarrow> string" where
  "shortKey roomId username = CHAT_BURST_PREFIX @ ''s:'' @ roomId @ '':'' @ username"

definition longKey :: "string \<Rightarrow> string \<Rightarrow> string" where
  "longKey roomId username = CHAT_BURST_PREFIX @ ''l:'' @ roomId @ '':'' @ username"

definition lastKey :: "string \<Rightarrow> string \<Rightarrow> string" where
  "lastKey roomId username = CHAT_BURST_PREFIX @ ''last:'' @ roomId @ '':'' @ username"

text \<open>The value INCR returns for a key.\<close>

definition nextCount :: "int \<Rightarrow> store \<Rightarrow> string \<Rightarrow> int" where
  "nextCount now s k = (case kv_get now (rl s) k of None \<Rightarrow> 1 | Some n \<Rightarrow> n + 1)"

text \<open>The minimum-interval test on the last-sent record.\<close>

definition tooSoon :: "int \<Rightarrow> store \<Rightarrow> string \<Rightarrow> bool" where
  "tooSoon now s k =
     (case kv_get now (rl s) k of
        Some l \<Rightarrow> l \<noteq> 0 \<and> now div 1000 - l < CHAT_MIN_INTERVAL_SECONDS
      | None \<Rightarrow> False)"

section \<open>Sanitisation: facts about the helpers\<close>




lemma escapeHTML_length: "length s \<le> length (escapeHTML s)"
  by (induction s) (auto simp: escapeHTML_def escapeChar_def)

lemma matchUrlAt_le: "matchUrlAt s = Some n \<Longrightarrow> n \<le> length s"
proof -
  assume a: "matchUrlAt s = Some n"
  have tw: "\<And>k. length (takeWhile (\<lambda>c. \<not> isSpace c) (drop k s)) \<le> length s - k"
    by (metis length_drop length_takeWhile_le)
  show ?thesis
  proof (cases "prefix ''https://'' s")
    case True
    then have "8 \<le> length s" by (auto simp: prefix_def)
    with a True tw[of 8] show ?thesis
      by (auto simp: matchUrlAt_def Let_def split: if_splits)
  next
    case False
    show ?thesis
    proof (cases "prefix ''http://'' s")
      case True
      then have "7 \<le> length s" by (auto simp: prefix_def)
      with a False True tw[of 7] show ?thesis
        by (auto simp: matchUrlAt_def Let_def split: if_splits)
    next
      case f2: False
      with a False show ?thesis by (simp add: matchUrlAt_def)
    qed
  qed
qed

lemma substring_take_drop: "a \<le> b \<Longrightarrow> b \<le> length s \<Longrightarrow> substring s a b = take (b - a) (drop a s)"
  by (simp add: substring_def Let_def min_def max_def)

lemma reassemble_id_aux:
  "lastIndex \<le> i \<Longrightarrow> result = take lastIndex content \<Longrightarrow>
   reassemble (\<lambda>x. x) content (urlMatchesFrom content i) (result, lastIndex) = (r, l) \<Longrightarrow>
   r = take l content \<and> l \<le> max lastIndex (length content)"
proof (induction content i arbitrary: result lastIndex rule: urlMatchesFrom.induct)
  case (1 content i)
  show ?case
  proof (cases "length content \<le> i")
    case True
    with 1(3-) show ?thesis by (auto simp: urlMatchesFrom.simps)
  next
    case nle: False
    show ?thesis
    proof (cases "matchUrlAt (drop i content)")
      case None
      with nle 1(5) have "reassemble (\<lambda>x. x) content (urlMatchesFrom content (i + 1)) (result, lastIndex) = (r, l)"
        by (simp add: urlMatchesFrom.simps[of content i])
      from 1(1)[OF nle None _ 1(4) this] 1(3) show ?thesis by simp
    next
      case (Some n)
      from matchUrlAt_le[OF Some] have nb: "i + n \<le> length content" using nle by simp
      have eq: "result @ substring content lastIndex i @ take n (drop i content) = take (i + n) content"
      proof -
        have s1: "substring content lastIndex i = take (i - lastIndex) (drop lastIndex content)"
          using 1(3) nle by (simp add: substring_take_drop)
        have s2: "take lastIndex content @ take (i - lastIndex) (drop lastIndex content) = take i content"
          using 1(3) by (metis le_add_diff_inverse take_add)
        have s3: "take i content @ take n (drop i content) = take (i + n) content"
          by (simp add: take_add)
        have "result @ substring content lastIndex i @ take n (drop i content)
              = (take lastIndex content @ take (i - lastIndex) (drop lastIndex content)) @ take n (drop i content)"
          unfolding s1 1(4) by simp
        also have "\<dots> = take (i + n) content" unfolding s2 s3 ..
        finally show ?thesis .
      qed
      from Some nle 1(5) eq
      have "reassemble (\<lambda>x. x) content (urlMatchesFrom content (i + n)) (take (i + n) content, i + n) = (r, l)"
        by (simp add: urlMatchesFrom.simps[of content i])
      from 1(2)[OF nle Some _ _ this] nb show ?thesis by (simp add: max_def split: if_splits)
    qed
  qed
qed

lemma filterProfanity_id: "filterProfanityPreservingUrls (\<lambda>x. x) content = content"
proof (cases "urlMatchesFrom content 0 = []")
  case True
  then show ?thesis by (simp add: filterProfanityPreservingUrls_def)
next
  case False
  obtain r l where rl: "reassemble (\<lambda>x. x) content (urlMatchesFrom content 0) ('''', 0) = (r, l)"
    by (cases "reassemble (\<lambda>x. x) content (urlMatchesFrom content 0) ('''', 0)")
  from reassemble_id_aux[OF _ _ rl] have r: "r = take l content" and l: "l \<le> length content" by auto
  have "substring content l (length content) = drop l content"
    using l by (simp add: substring_take_drop)
  with False rl r l show ?thesis
    by (auto simp: filterProfanityPreservingUrls_def Let_def)
qed









section \<open>The sensitive-action rate limiter\<close>

text \<open>
  C8.  \<open>checkRateLimit\<close> fails open: when a store command it runs throws (the GET; the
  SET of a first request; the INCR of a later one), the request is allowed and the store
  is as before.  When the GET succeeds and the counter has reached
  \<open>RATE_LIMIT_ATTEMPTS\<close>, the request is refused and the store is unchanged: the counter
  is not incremented.  A refusal has no other cause.
\<close>

theorem checkRateLimit_fail_open:
  "(fails GET \<longrightarrow> checkRateLimit fails now s action identifier = (True, s))
 \<and> (\<not> fails GET \<and> fails SET
      \<and> kv_get now (rl s) (RATE_LIMIT_PREFIX @ action @ '':'' @ identifier) \<in> {None, Some 0}
      \<longrightarrow> checkRateLimit fails now s action identifier = (True, s))
 \<and> (\<not> fails GET \<and> fails INCR
      \<and> kv_get now (rl s) (RATE_LIMIT_PREFIX @ action @ '':'' @ identifier) = Some n
      \<and> n \<noteq> 0 \<and> n < RATE_LIMIT_ATTEMPTS
      \<longrightarrow> checkRateLimit fails now s action identifier = (True, s))
 \<and> (\<not> fails GET
      \<and> kv_get now (rl s) (RATE_LIMIT_PREFIX @ action @ '':'' @ identifier) = Some n
      \<and> RATE_LIMIT_ATTEMPTS \<le> n
      \<longrightarrow> checkRateLimit fails now s action identifier = (False, s))
 \<and> (\<not> fst (checkRateLimit fails now s action identifier)
      \<longrightarrow> \<not> fails GET
        \<and> (\<exists>c. kv_get now (rl s) (RATE_LIMIT_PREFIX @ action @ '':'' @ identifier) = Some c
               \<and> RATE_LIMIT_ATTEMPTS \<le> c))"
  by (auto simp: checkRateLimit_def Let_def RATE_LIMIT_ATTEMPTS_def split: option.splits if_splits)

theorem checkRateLimit_fail_open_witness:
  "checkRateLimit (\<lambda>c. True) 5000 (emptyStore\<lparr>rl := [(''rl:createUser:alice'', (10, Some 60000))]\<rparr>) ''createUser'' ''alice''
     = (True, emptyStore\<lparr>rl := [(''rl:createUser:alice'', (10, Some 60000))]\<rparr>)
   \<and> checkRateLimit (\<lambda>c. False) 5000 (emptyStore\<lparr>rl := [(''rl:createUser:alice'', (10, Some 60000))]\<rparr>) ''createUser'' ''alice''
     = (False, emptyStore\<lparr>rl := [(''rl:createUser:alice'', (10, Some 60000))]\<rparr>)"
  using checkRateLimit_fail_open [of "\<lambda>c. True" 5000 "emptyStore\<lparr>rl := [(''rl:createUser:alice'', (10, Some 60000))]\<rparr>" "''createUser''" "''alice''" 10]
        checkRateLimit_fail_open [of "\<lambda>c. False" 5000 "emptyStore\<lparr>rl := [(''rl:createUser:alice'', (10, Some 60000))]\<rparr>" "''createUser''" "''alice''" 10]
  by (simp add: kv_get_def live_def RATE_LIMIT_PREFIX_def RATE_LIMIT_ATTEMPTS_def emptyStore_def)

lemma toLowerCase_length [simp]: "length (toLowerCase u) = length u"
  by (simp add: toLowerCase_def)

lemma kv_get_update:
  "kv_get now (AList.update k e m) k' =
     (if k' = k then (if live now e then Some (fst e) else None) else kv_get now m k')"
  by (simp add: kv_get_def update_conv')

lemma kv_get_setex:
  "kv_get now' (kv_setex now m k v sec) k' =
     (if k' = k then (if now' < now + sec * 1000 then Some v else None) else kv_get now' m k')"
  by (simp add: kv_setex_def kv_get_update live_def)


lemma kv_get_del:
  "kv_get now (kv_del m k) k' = (if k' = k then None else kv_get now m k')"
  by (simp add: kv_del_def kv_get_def delete_conv')

lemma kv_get_expire:
  "kv_get now' (kv_expire now m k sec) k' =
     (if k' = k \<and> kv_get now m k \<noteq> None
      then (if now' < now + sec * 1000 then kv_get now m k else None)
      else kv_get now' m k')"
  by (auto simp: kv_expire_def kv_get_update live_def split: option.splits)

lemma kv_get_foldl_del:
  "kv_get now (foldl kv_del m ks) k = (if k \<in> set ks then None else kv_get now m k)"
  by (induction ks arbitrary: m) (auto simp: kv_get_del)

lemma kv_exists_in_keys: "kv_exists now m k \<Longrightarrow> k \<in> fst ` set m"
proof -
  assume "kv_exists now m k"
  then obtain e where "map_of m k = Some e"
    by (cases "map_of m k") (auto simp: kv_exists_def kv_get_def)
  then have "(k, e) \<in> set m" by (rule map_of_SomeD)
  then show ?thesis by force
qed

lemma set_kv_scan_around:
  "set (kv_scan_around now m p q) = {k. prefix p k \<and> suffix q (drop (length p) k) \<and> kv_exists now m k}"
  by (auto simp: kv_scan_around_def dest: kv_exists_in_keys)

lemma set_kv_scan_prefix:
  "set (kv_scan_prefix now m p) = {k. prefix p k \<and> kv_exists now m k}"
  by (auto simp: kv_scan_prefix_def dest: kv_exists_in_keys)

lemma kv_incr_fst:
  "fst (kv_incr now m k) = (case kv_get now m k of None \<Rightarrow> 1 | Some n \<Rightarrow> n + 1)"
  by (simp add: kv_incr_def kv_get_def split: option.splits)

lemma kv_get_incr:
  "kv_get now (snd (kv_incr now m k)) k' =
     (if k' = k then Some (fst (kv_incr now m k)) else kv_get now m k')"
proof (cases "map_of m k")
  case None
  then show ?thesis by (simp add: kv_incr_def kv_get_update live_def)
next
  case (Some e)
  show ?thesis
  proof (cases "live now e")
    case True
    with Some show ?thesis by (simp add: kv_incr_def kv_get_update live_def)
  next
    case False
    with Some show ?thesis by (simp add: kv_incr_def kv_get_update live_def)
  qed
qed

lemma map_of_incr_live:
  "map_of m k = Some (n, e) \<Longrightarrow> live now (n, e) \<Longrightarrow>
   map_of (snd (kv_incr now m k)) k = Some (n + 1, e)"
  by (simp add: kv_incr_def update_conv')

lemma userTokenKey_neq_tokenKey: "getUserTokenKey u t \<noteq> getTokenKey t"
proof
  assume "getUserTokenKey u t = getTokenKey t"
  then have "length (getUserTokenKey u t) = length (getTokenKey t)" by simp
  then show False by (simp add: getUserTokenKey_def getTokenKey_def)
qed

lemma userTokenKey_neq_legacy: "getUserTokenKey (toLowerCase u) t \<noteq> AUTH_TOKEN_PREFIX @ toLowerCase u"
proof
  assume "getUserTokenKey (toLowerCase u) t = AUTH_TOKEN_PREFIX @ toLowerCase u"
  then have "length (getUserTokenKey (toLowerCase u) t) = length (AUTH_TOKEN_PREFIX @ toLowerCase u)"
    by simp
  then show False by (simp add: getUserTokenKey_def)
qed

lemma map_of_kv_expire_same:
  "kv_get now m k = Some v \<Longrightarrow> map_of (kv_expire now m k sec) k = Some (v, Some (now + sec * 1000))"
  by (simp add: kv_expire_def update_conv')

lemma map_of_kv_expire_other:
  "k' \<noteq> k \<Longrightarrow> map_of (kv_expire now m k sec) k' = map_of m k'"
  by (simp add: kv_expire_def update_conv' split: option.splits)

lemma map_of_kv_setex:
  "map_of (kv_setex now m k v sec) k' = (if k' = k then Some (v, Some (now + sec * 1000)) else map_of m k')"
  by (simp add: kv_setex_def update_conv')

lemma validateAuth_missing:
  "falsy username \<or> falsy tok \<Longrightarrow>
   validateAuth now s username tok allowExpired = (\<lparr>valid = False, expired = None\<rparr>, s)"
  by (simp add: validateAuth_def)

lemma validateAuth_direct:
  assumes "username \<noteq> []" "tok \<noteq> []"
    and "directRecord now s (toLowerCase username) tok"
  shows "validateAuth now s (Some username) (Some tok) allowExpired =
           (\<lparr>valid = True, expired = Some False\<rparr>,
            s\<lparr>chat_token := kv_expire now
                 (kv_expire now (chat_token s) (getUserTokenKey (toLowerCase username) tok) USER_TTL_SECONDS)
                 (getTokenKey tok) USER_TTL_SECONDS\<rparr>)"
  using assms by (simp add: validateAuth_def directRecord_def Let_def)

lemma validateAuth_reverse:
  assumes "username \<noteq> []" "tok \<noteq> []"
    and "\<not> directRecord now s (toLowerCase username) tok"
    and "reverseRecord now s (toLowerCase username) tok"
  shows "validateAuth now s (Some username) (Some tok) allowExpired =
           (\<lparr>valid = True, expired = Some False\<rparr>,
            s\<lparr>chat_token := kv_setex now
                 (kv_expire now (chat_token s) (getTokenKey tok) USER_TTL_SECONDS)
                 (getUserTokenKey (toLowerCase username) tok) (TNum now) USER_TTL_SECONDS\<rparr>)"
  using assms
  by (simp add: validateAuth_def directRecord_def reverseRecord_def Let_def
        getUsernameForToken_def getCurrentTimestamp_def)

lemma validateAuth_legacy:
  assumes "username \<noteq> []" "tok \<noteq> []"
    and "\<not> directRecord now s (toLowerCase username) tok"
    and "\<not> reverseRecord now s (toLowerCase username) tok"
    and "legacyRecord now s (toLowerCase username) tok"
  shows "validateAuth now s (Some username) (Some tok) allowExpired =
           (\<lparr>valid = True, expired = Some False\<rparr>,
            s\<lparr>chat_token := kv_setex now
                 (kv_expire now (chat_token s) (AUTH_TOKEN_PREFIX @ toLowerCase username) USER_TTL_SECONDS)
                 (getUserTokenKey (toLowerCase username) tok) (TNum now) USER_TTL_SECONDS\<rparr>)"
  using assms
  by (simp add: validateAuth_def directRecord_def reverseRecord_def legacyRecord_def Let_def
        getUsernameForToken_def getCurrentTimestamp_def)

lemma validateAuth_rest:
  assumes "username \<noteq> []" "tok \<noteq> []"
    and "\<not> directRecord now s (toLowerCase username) tok"
    and "\<not> reverseRecord now s (toLowerCase username) tok"
    and "\<not> legacyRecord now s (toLowerCase username) tok"
  shows "validateAuth now s (Some username) (Some tok) allowExpired =
           (if allowExpired \<and> graceRecord now s (toLowerCase username) tok
            then \<lparr>valid = True, expired = Some True\<rparr>
            else \<lparr>valid = False, expired = None\<rparr>, s)"
  using assms
  by (auto simp: validateAuth_def directRecord_def reverseRecord_def legacyRecord_def graceRecord_def
        Let_def getUsernameForToken_def split: option.splits TokenValue.splits)

text \<open>
  Claim C5.  For a present username and token, \<open>validateAuth\<close> gives the result of the four
  checks in their order: (a) the user-scoped key exists, (b) the token key maps to the
  lowercased username, (c) the legacy key of the user holds the token, (d) with
  \<open>allowExpired\<close>, the last-token record holds the token and the grace period has not
  ended.  Path (a) refreshes the expiry of both keys, (b) and (c) also write the
  user-scoped key, (d) and a failure leave the store unchanged, and the result is invalid
  exactly when all four checks fail.
\<close>

theorem validateAuth_four_paths:
  assumes "username \<noteq> []" and "tok \<noteq> []"
  shows
   "fst (validateAuth now s (Some username) (Some tok) allowExpired)
      = validate_spec now s (toLowerCase username) tok allowExpired
    \<and> (directRecord now s (toLowerCase username) tok \<longrightarrow>
         (\<forall>v. kv_get now (chat_token s) (getUserTokenKey (toLowerCase username) tok) = Some v \<longrightarrow>
              map_of (chat_token (snd (validateAuth now s (Some username) (Some tok) allowExpired)))
                     (getUserTokenKey (toLowerCase username) tok)
                = Some (v, Some (now + USER_TTL_SECONDS * 1000))))
    \<and> (\<not> directRecord now s (toLowerCase username) tok
        \<and> reverseRecord now s (toLowerCase username) tok \<longrightarrow>
         map_of (chat_token (snd (validateAuth now s (Some username) (Some tok) allowExpired)))
                (getUserTokenKey (toLowerCase username) tok)
           = Some (TNum now, Some (now + USER_TTL_SECONDS * 1000)))
    \<and> (\<not> directRecord now s (toLowerCase username) tok
        \<and> \<not> reverseRecord now s (toLowerCase username) tok
        \<and> \<not> legacyRecord now s (toLowerCase username) tok \<longrightarrow>
         snd (validateAuth now s (Some username) (Some tok) allowExpired) = s)
    \<and> (\<not> valid (fst (validateAuth now s (Some username) (Some tok) allowExpired)) \<longleftrightarrow>
         \<not> directRecord now s (toLowerCase username) tok
       \<and> \<not> reverseRecord now s (toLowerCase username) tok
       \<and> \<not> legacyRecord now s (toLowerCase username) tok
       \<and> \<not> (allowExpired \<and> graceRecord now s (toLowerCase username) tok))"
proof (cases "directRecord now s (toLowerCase username) tok")
  case True
  note r = validateAuth_direct[OF assms True, of allowExpired]
  have "\<And>v. kv_get now (chat_token s) (getUserTokenKey (toLowerCase username) tok) = Some v \<Longrightarrow>
          map_of (kv_expire now
                 (kv_expire now (chat_token s) (getUserTokenKey (toLowerCase username) tok) USER_TTL_SECONDS)
                 (getTokenKey tok) USER_TTL_SECONDS) (getUserTokenKey (toLowerCase username) tok)
            = Some (v, Some (now + USER_TTL_SECONDS * 1000))"
    by (simp add: map_of_kv_expire_other userTokenKey_neq_tokenKey map_of_kv_expire_same)
  with True show ?thesis by (simp add: r validate_spec_def)
next
  case nd: False
  show ?thesis
  proof (cases "reverseRecord now s (toLowerCase username) tok")
    case True
    note r = validateAuth_reverse[OF assms nd True, of allowExpired]
    from nd True show ?thesis by (simp add: r validate_spec_def map_of_kv_setex)
  next
    case nr: False
    show ?thesis
    proof (cases "legacyRecord now s (toLowerCase username) tok")
      case True
      note r = validateAuth_legacy[OF assms nd nr True, of allowExpired]
      from nd nr True show ?thesis by (simp add: r validate_spec_def)
    next
      case nl: False
      note r = validateAuth_rest[OF assms nd nr nl, of allowExpired]
      from nd nr nl show ?thesis by (simp add: r validate_spec_def)
    qed
  qed
qed

theorem validateAuth_four_paths_witness:
  "fst (validateAuth 10 tokenStore (Some ''Alice'') (Some ''t1'') False) = \<lparr>valid = True, expired = Some False\<rparr>
 \<and> map_of (chat_token (snd (validateAuth 10 tokenStore (Some ''Alice'') (Some ''t1'') False)))
       ''chat:token:user:alice:t1'' = Some (TNum 5, Some 7776000010)
 \<and> map_of (chat_token (snd (validateAuth 10 tokenStore (Some ''alice'') (Some ''t2'') False)))
       ''chat:token:user:alice:t2'' = Some (TNum 10, Some 7776000010)
 \<and> fst (validateAuth 10 tokenStore (Some ''bob'') (Some ''t3'') False) = \<lparr>valid = True, expired = Some False\<rparr>
 \<and> fst (validateAuth 10 tokenStore (Some ''carol'') (Some ''t4'') True) = \<lparr>valid = True, expired = Some True\<rparr>
 \<and> validateAuth 10 tokenStore (Some ''carol'') (Some ''t4'') False = (\<lparr>valid = False, expired = None\<rparr>, tokenStore)"
proof -
  have lc: "toLowerCase ''Alice'' = ''alice''" "toLowerCase ''alice'' = ''alice''"
           "toLowerCase ''bob'' = ''bob''" "toLowerCase ''carol'' = ''carol''"
    by code_simp+
  note defs = validate_spec_def directRecord_def reverseRecord_def legacyRecord_def graceRecord_def
    kv_exists_def kv_get_def live_def tokenStore_def emptyStore_def getUserTokenKey_def getTokenKey_def
    AUTH_TOKEN_PREFIX_def USER_TTL_SECONDS_def TOKEN_GRACE_PERIOD_def lc
  have a: "fst (validateAuth 10 tokenStore (Some ''Alice'') (Some ''t1'') False) = \<lparr>valid = True, expired = Some False\<rparr>
      \<and> map_of (chat_token (snd (validateAuth 10 tokenStore (Some ''Alice'') (Some ''t1'') False)))
       ''chat:token:user:alice:t1'' = Some (TNum 5, Some 7776000010)"
    using validateAuth_four_paths [of "''Alice''" "''t1''" 10 tokenStore False]
    by (simp add: defs)
  have b: "map_of (chat_token (snd (validateAuth 10 tokenStore (Some ''alice'') (Some ''t2'') False)))
       ''chat:token:user:alice:t2'' = Some (TNum 10, Some 7776000010)"
    using validateAuth_four_paths [of "''alice''" "''t2''" 10 tokenStore False]
    by (simp add: defs)
  have c: "fst (validateAuth 10 tokenStore (Some ''bob'') (Some ''t3'') False) = \<lparr>valid = True, expired = Some False\<rparr>"
    using validateAuth_four_paths [of "''bob''" "''t3''" 10 tokenStore False]
    by (simp add: defs)
  have d: "fst (validateAuth 10 tokenStore (Some ''carol'') (Some ''t4'') True) = \<lparr>valid = True, expired = Some True\<rparr>"
    using validateAuth_four_paths [of "''carol''" "''t4''" 10 tokenStore True]
    by (simp add: defs)
  have e: "validateAuth 10 tokenStore (Some ''carol'') (Some ''t4'') False = (\<lparr>valid = False, expired = None\<rparr>, tokenStore)"
    using validateAuth_four_paths [of "''carol''" "''t4''" 10 tokenStore False]
    by (simp add: defs prod_eq_iff)
  from a b c d e show ?thesis by blast
qed

lemma toLowerChar_idem: "toLowerChar (toLowerChar c) = toLowerChar c"
proof -
  have lt: "(of_char c :: nat) < 256" by simp
  show ?thesis
  proof (cases "(65 \<le> (of_char c :: nat) \<and> (of_char c :: nat) \<le> 90) \<or> (192 \<le> (of_char c :: nat) \<and> (of_char c :: nat) \<le> 222 \<and> (of_char c :: nat) \<noteq> 215)")
    case True
    then have "toLowerChar c = char_of ((of_char c :: nat) + 32)" by (simp add: toLowerChar_def)
    moreover have "(of_char c :: nat) + 32 < 256" using True by auto
    then have "(of_char (char_of ((of_char c :: nat) + 32)) :: nat) = of_char c + 32"
      by (simp add: of_char_of)
    ultimately show ?thesis using True by (auto simp: toLowerChar_def Let_def)
  next
    case False
    then have "toLowerChar c = c" by (auto simp: toLowerChar_def Let_def)
    then show ?thesis by simp
  qed
qed

lemma toLowerCase_idem [simp]: "toLowerCase (toLowerCase u) = toLowerCase u"
  by (simp add: toLowerCase_def toLowerChar_idem)

lemma toLowerChar_hex: "isHexDigit c \<Longrightarrow> toLowerChar c = c"
  by (auto simp: isHexDigit_def toLowerChar_def)

lemma toLowerCase_hex: "list_all isHexDigit t \<Longrightarrow> toLowerCase t = t"
  by (induction t) (simp_all add: toLowerCase_def toLowerChar_hex)

lemma generatedToken_lower: "generatedToken t \<Longrightarrow> toLowerCase t = t"
  by (simp add: generatedToken_def toLowerCase_hex)

lemma hex_no_colon: "list_all isHexDigit t \<Longrightarrow> CHR '':'' \<notin> set t"
proof
  assume h: "list_all isHexDigit t" and m: "CHR '':'' \<in> set t"
  have "\<not> isHexDigit CHR '':''" by (simp add: isHexDigit_def)
  moreover from h m have "isHexDigit CHR '':''" unfolding list_all_iff by blast
  ultimately show False by simp
qed

lemma generatedToken_no_colon: "generatedToken t \<Longrightarrow> CHR '':'' \<notin> set t"
  by (simp add: generatedToken_def hex_no_colon)

lemma generatedToken_nonempty: "generatedToken t \<Longrightarrow> t \<noteq> []"
  by (cases t) (simp_all add: generatedToken_def)

lemma kv_get_mono: "kv_get now m k = None \<Longrightarrow> now \<le> now' \<Longrightarrow> kv_get now' m k = None"
  by (auto simp: kv_get_def live_def split: option.splits if_splits)

lemma USER_TTL_pos: "0 < USER_TTL_SECONDS"
  by (simp add: USER_TTL_SECONDS_def)

lemma kv_get_expire_now:
  "kv_get now (kv_expire now m k USER_TTL_SECONDS) k' = kv_get now m k'"
  by (auto simp: kv_get_expire USER_TTL_pos)

lemma validateAuth_keeps:
  assumes "validateAuth now s (Some u) (Some t) a = (r, s1)"
    and "k \<noteq> getUserTokenKey (toLowerCase u) t"
  shows "kv_get now (chat_token s1) k = kv_get now (chat_token s) k"
proof (cases "u = [] \<or> t = []")
  case True
  with assms show ?thesis by (auto simp: validateAuth_def)
next
  case False
  then have ne: "u \<noteq> []" "t \<noteq> []" by auto
  show ?thesis
  proof (cases "directRecord now s (toLowerCase u) t")
    case True
    from validateAuth_direct[OF ne True, of a] assms show ?thesis
      by (auto simp: kv_get_expire_now)
  next
    case nd: False
    show ?thesis
    proof (cases "reverseRecord now s (toLowerCase u) t")
      case True
      from validateAuth_reverse[OF ne nd True, of a] assms show ?thesis
        by (auto simp: kv_get_expire_now kv_get_setex)
    next
      case nr: False
      show ?thesis
      proof (cases "legacyRecord now s (toLowerCase u) t")
        case True
        from validateAuth_legacy[OF ne nd nr True, of a] assms show ?thesis
          by (auto simp: kv_get_expire_now kv_get_setex)
      next
        case nl: False
        from validateAuth_rest[OF ne nd nr nl, of a] assms show ?thesis by auto
      qed
    qed
  qed
qed

lemma map_of_foldl_del:
  "map_of (foldl kv_del m ks) k = (if k \<in> set ks then None else map_of m k)"
  by (induction ks arbitrary: m) (auto simp: kv_del_def delete_conv')

lemma map_of_kv_del: "map_of (kv_del m k) k' = (if k' = k then None else map_of m k')"
  by (simp add: kv_del_def delete_conv')

lemma kv_get_None_if_map_of_None: "map_of m k = None \<Longrightarrow> kv_get now m k = None"
  by (simp add: kv_get_def)

lemma kv_get_cong_map_of: "map_of m k = map_of m' k \<Longrightarrow> kv_get now m k = kv_get now m' k"
  by (simp add: kv_get_def)

lemma userTokenKey_pattern:
  "prefix (AUTH_TOKEN_PREFIX @ ''user:'') (getUserTokenKey u t)"
  "suffix ('':'' @ t) (drop (length (AUTH_TOKEN_PREFIX @ ''user:'')) (getUserTokenKey u t))"
  by (simp_all add: getUserTokenKey_def suffix_def)

lemma userTokenKey_in_scan:
  "kv_exists now m (getUserTokenKey u t) \<Longrightarrow>
   getUserTokenKey u t \<in> set (kv_scan_around now m (AUTH_TOKEN_PREFIX @ ''user:'') ('':'' @ t))"
  by (simp add: set_kv_scan_around getUserTokenKey_def suffix_def)

lemma deleteToken_ok:
  assumes d: "deleteToken now s2 old = (None, s3)" and ne: "old \<noteq> []"
  shows "map_of (chat_token s3) (getTokenKey old) = None"
    and "\<forall>x. kv_get now (chat_token s2) (getTokenKey old) = Some (TStr x) \<and> x \<noteq> [] \<longrightarrow> toLowerCase x = toLowerCase u
         \<Longrightarrow> now \<le> now' \<Longrightarrow> kv_get now' (chat_token s3) (getUserTokenKey u old) = None"
    and "\<not> prefix (AUTH_TOKEN_PREFIX @ ''user:'') k \<Longrightarrow> k \<noteq> getTokenKey old \<Longrightarrow>
           map_of (chat_token s3) k = map_of (chat_token s2) k"
    and "\<not> (\<exists>d. kv_get now (chat_token s2) (getTokenKey old) = Some (TData d))"
proof -
  let ?RK = "getTokenKey old"
  let ?v = "kv_get now (chat_token s2) ?RK"
  let ?m1 = "kv_del (chat_token s2) ?RK"
  show "\<not> (\<exists>d. kv_get now (chat_token s2) (getTokenKey old) = Some (TData d))"
    using d ne by (auto simp: deleteToken_def Let_def)
  show "map_of (chat_token s3) ?RK = None"
  proof (cases "truthy ?v")
    case True
    with d ne obtain x where x: "?v = Some (TStr x)"
      by (auto simp: deleteToken_def Let_def split: option.splits TokenValue.splits)
    with d ne True have "chat_token s3 = kv_del ?m1 (getUserTokenKey x old)"
      by (auto simp: deleteToken_def Let_def)
    then show ?thesis by (simp add: map_of_kv_del)
  next
    case False
    with d ne have "chat_token s3 = foldl kv_del ?m1
        (kv_scan_around now ?m1 (AUTH_TOKEN_PREFIX @ ''user:'') ('':'' @ old))"
      by (auto simp: deleteToken_def Let_def)
    then show ?thesis by (simp add: map_of_foldl_del map_of_kv_del)
  qed
  show "kv_get now' (chat_token s3) (getUserTokenKey u old) = None"
    if b: "\<forall>x. kv_get now (chat_token s2) (getTokenKey old) = Some (TStr x) \<and> x \<noteq> [] \<longrightarrow> toLowerCase x = toLowerCase u"
      and le: "now \<le> now'"
  proof (cases "truthy ?v")
    case True
    with d ne obtain x where x: "?v = Some (TStr x)"
      by (auto simp: deleteToken_def Let_def split: option.splits TokenValue.splits)
    with True have xne: "x \<noteq> []" by simp
    with b x have lx: "toLowerCase x = toLowerCase u" by blast
    from d ne True x have "chat_token s3 = kv_del ?m1 (getUserTokenKey x old)"
      by (auto simp: deleteToken_def Let_def)
    moreover have "getUserTokenKey x old = getUserTokenKey u old"
      by (simp add: getUserTokenKey_def lx)
    ultimately show ?thesis by (simp add: kv_get_del)
  next
    case False
    with d ne have m3: "chat_token s3 = foldl kv_del ?m1
        (kv_scan_around now ?m1 (AUTH_TOKEN_PREFIX @ ''user:'') ('':'' @ old))"
      by (auto simp: deleteToken_def Let_def)
    show ?thesis
    proof (cases "kv_exists now ?m1 (getUserTokenKey u old)")
      case True
      then have "getUserTokenKey u old \<in> set (kv_scan_around now ?m1 (AUTH_TOKEN_PREFIX @ ''user:'') ('':'' @ old))"
        by (rule userTokenKey_in_scan)
      then show ?thesis by (simp add: m3 kv_get_foldl_del)
    next
      case nex: False
      then have "kv_get now ?m1 (getUserTokenKey u old) = None" by (simp add: kv_exists_def)
      from kv_get_mono[OF this le] show ?thesis by (simp add: m3 kv_get_foldl_del)
    qed
  qed
  show "map_of (chat_token s3) k = map_of (chat_token s2) k"
    if np: "\<not> prefix (AUTH_TOKEN_PREFIX @ ''user:'') k" and nk: "k \<noteq> getTokenKey old"
  proof (cases "truthy ?v")
    case True
    with d ne obtain x where x: "?v = Some (TStr x)"
      by (auto simp: deleteToken_def Let_def split: option.splits TokenValue.splits)
    from d ne True x have "chat_token s3 = kv_del ?m1 (getUserTokenKey x old)"
      by (auto simp: deleteToken_def Let_def)
    moreover have "k \<noteq> getUserTokenKey x old" using np userTokenKey_pattern(1)[of x old] by auto
    ultimately show ?thesis using nk by (simp add: map_of_kv_del)
  next
    case False
    with d ne have m3: "chat_token s3 = foldl kv_del ?m1
        (kv_scan_around now ?m1 (AUTH_TOKEN_PREFIX @ ''user:'') ('':'' @ old))"
      by (auto simp: deleteToken_def Let_def)
    have "k \<notin> set (kv_scan_around now ?m1 (AUTH_TOKEN_PREFIX @ ''user:'') ('':'' @ old))"
      using np by (simp add: set_kv_scan_around)
    then show ?thesis using nk by (simp add: m3 map_of_foldl_del map_of_kv_del)
  qed
qed

lemma handleRefreshToken_201:
  assumes "handleRefreshToken deserialize now authToken s \<lparr>rt_username = Some username, oldToken = Some old\<rparr> = (resp, s')"
    and "status resp = 201"
  obtains r s1 s3 where
    "username \<noteq> []" "old \<noteq> []"
    "validateAuth now s (Some (toLowerCase username)) (Some old) True = (r, s1)"
    "deleteToken now (storeLastValidToken now s1 (toLowerCase username) old now TOKEN_GRACE_PERIOD) old = (None, s3)"
    "s' = storeToken deserialize now
            (s3\<lparr>chat_token := kv_setex now (chat_token s3) (AUTH_TOKEN_PREFIX @ toLowerCase username)
                                 (deserialize authToken) USER_EXPIRATION_TIME\<rparr>)
            (toLowerCase username) authToken"
proof -
  from assms have ne: "username \<noteq> []" "old \<noteq> []"
    by (auto simp: handleRefreshToken_def createErrorResponse_def split: if_splits)
  obtain r s1 where v: "validateAuth now s (Some (toLowerCase username)) (Some old) True = (r, s1)"
    by (cases "validateAuth now s (Some (toLowerCase username)) (Some old) True")
  obtain th s3 where d: "deleteToken now (storeLastValidToken now s1 (toLowerCase username) old now TOKEN_GRACE_PERIOD) old = (th, s3)"
    by (cases "deleteToken now (storeLastValidToken now s1 (toLowerCase username) old now TOKEN_GRACE_PERIOD) old")
  from assms ne v d have "th = None \<and> s' = storeToken deserialize now
            (s3\<lparr>chat_token := kv_setex now (chat_token s3) (AUTH_TOKEN_PREFIX @ toLowerCase username)
                                 (deserialize authToken) USER_EXPIRATION_TIME\<rparr>)
            (toLowerCase username) authToken"
    by (auto simp: handleRefreshToken_def createErrorResponse_def Let_def split: option.splits if_splits)
  with that ne v d show ?thesis by blast
qed

lemma GRACE_pos: "0 < TOKEN_GRACE_PERIOD"
  by (simp add: TOKEN_GRACE_PERIOD_def)

text \<open>
  A refresh that answers 201 leaves the old token as the last-token record and invalid for
  \<open>allowExpired = false\<close>, for a new token that reads back as itself or as a number, on
  a store whose token key for the old token, when it holds a string, names the user.
\<close>

lemma refresh_invalidates_old_token:
  assumes run: "handleRefreshToken deserialize now authToken s \<lparr>rt_username = Some username, oldToken = Some old\<rparr> = (resp, s')"
    and ok: "status resp = 201"
    and fresh: "generatedToken authToken" "authToken \<noteq> old"
    and rd: "deserialize authToken = TStr authToken \<or> (\<exists>n. deserialize authToken = TNum n)"
    and bound: "\<forall>x. kv_get now (chat_token s) (getTokenKey old) = Some (TStr x) \<and> x \<noteq> []
                  \<longrightarrow> toLowerCase x = toLowerCase username"
    and later: "now \<le> now'"
  shows "kv_get now (chat_token s') (AUTH_TOKEN_PREFIX @ ''last:'' @ toLowerCase username)
           = Some (TData \<lparr>td_token = old, expiredAt = now\<rparr>)
       \<and> kv_get now' (chat_token s') (getUserTokenKey (toLowerCase username) old) = None
       \<and> mappedLowerOf (kv_get now' (chat_token s') (getTokenKey old)) \<noteq> Some (toLowerCase username)
       \<and> validateAuth now' s' (Some username) (Some old) False = (\<lparr>valid = False, expired = None\<rparr>, s')
       \<and> validateAuth now' s' (Some username) (Some old) True
           = (if now' < now + TOKEN_GRACE_PERIOD * 1000
              then \<lparr>valid = True, expired = Some True\<rparr>
              else \<lparr>valid = False, expired = None\<rparr>, s')"
proof -
  let ?U = "toLowerCase username"
  let ?P = "AUTH_TOKEN_PREFIX"
  let ?UK = "getUserTokenKey ?U old"
  let ?RK = "getTokenKey old"
  let ?LK = "?P @ ?U"
  let ?LAST = "?P @ ''last:'' @ ?U"
  let ?UK' = "getUserTokenKey ?U authToken"
  let ?RK' = "getTokenKey authToken"
  let ?T = "USER_EXPIRATION_TIME"
  from run ok obtain r s1 s3 where
    ne: "username \<noteq> []" "old \<noteq> []"
    and v: "validateAuth now s (Some ?U) (Some old) True = (r, s1)"
    and d: "deleteToken now (storeLastValidToken now s1 ?U old now TOKEN_GRACE_PERIOD) old = (None, s3)"
    and s': "s' = storeToken deserialize now (s3\<lparr>chat_token := kv_setex now (chat_token s3) ?LK (deserialize authToken) ?T\<rparr>) ?U authToken"
    by (rule handleRefreshToken_201)
  let ?s2 = "storeLastValidToken now s1 ?U old now TOKEN_GRACE_PERIOD"
  let ?m3 = "chat_token s3"
  have m2: "chat_token ?s2 = kv_setex now (chat_token s1) ?LAST (TData \<lparr>td_token = old, expiredAt = now\<rparr>) TOKEN_GRACE_PERIOD"
    by (simp add: storeLastValidToken_def Let_def)
  have nc: "CHR '':'' \<notin> set authToken" and ane: "authToken \<noteq> []" and alow: "toLowerCase authToken = authToken"
    using fresh(1) by (simp_all add: generatedToken_no_colon generatedToken_nonempty generatedToken_lower)
  have m': "chat_token s' = kv_setex now (kv_setex now (kv_setex now ?m3 ?LK (deserialize authToken) ?T) ?UK' (TNum now) ?T) ?RK' (deserialize ?U) ?T"
    using ane by (simp add: s' storeToken_def Let_def getCurrentTimestamp_def)
  \<comment> \<open>the keys are different strings\<close>
  have k1: "?UK \<noteq> ?RK'" using nc by (auto simp: getUserTokenKey_def getTokenKey_def)
  have k2: "?UK \<noteq> ?UK'" using fresh(2) by (auto simp: getUserTokenKey_def)
  have k3: "?UK \<noteq> ?LK" using userTokenKey_neq_legacy[of username old] by simp
  have k4: "?LAST \<noteq> ?RK'" using nc by (auto simp: getTokenKey_def)
  have k5: "?LAST \<noteq> ?UK'" by (simp add: getUserTokenKey_def)
  have k6: "?LAST \<noteq> ?LK"
  proof
    assume "?LAST = ?LK"
    then have "length ?LAST = length ?LK" by simp
    then show False by simp
  qed
  have k7: "\<not> prefix (?P @ ''user:'') ?LAST" by (simp add: prefix_def)
  have k8: "?RK \<noteq> ?RK'" using fresh(2) by (simp add: getTokenKey_def)
  have k9: "?LK \<noteq> ?UK'" using userTokenKey_neq_legacy[of username authToken] by simp
  \<comment> \<open>the last-token record\<close>
  have last2: "kv_get now (chat_token ?s2) ?LAST = Some (TData \<lparr>td_token = old, expiredAt = now\<rparr>)"
    by (simp add: m2 kv_get_setex GRACE_pos)
  from deleteToken_ok(4)[OF d ne(2)] have k10: "?LAST \<noteq> ?RK"
    using last2 by auto
  have last3: "map_of ?m3 ?LAST = Some (TData \<lparr>td_token = old, expiredAt = now\<rparr>, Some (now + TOKEN_GRACE_PERIOD * 1000))"
    using deleteToken_ok(3)[OF d ne(2) k7 k10] by (simp add: m2 map_of_kv_setex)
  have last': "map_of (chat_token s') ?LAST = Some (TData \<lparr>td_token = old, expiredAt = now\<rparr>, Some (now + TOKEN_GRACE_PERIOD * 1000))"
    using k4 k5 k6 last3 by (simp add: m' map_of_kv_setex)
  have lastget: "\<And>t. kv_get t (chat_token s') ?LAST
       = (if t < now + TOKEN_GRACE_PERIOD * 1000 then Some (TData \<lparr>td_token = old, expiredAt = now\<rparr>) else None)"
    using last' by (simp add: kv_get_def live_def)
  \<comment> \<open>the user-scoped record is gone\<close>
  have b2: "\<forall>x. kv_get now (chat_token ?s2) ?RK = Some (TStr x) \<and> x \<noteq> [] \<longrightarrow> toLowerCase x = toLowerCase ?U"
  proof (intro allI impI)
    fix x assume a: "kv_get now (chat_token ?s2) ?RK = Some (TStr x) \<and> x \<noteq> []"
    then have "kv_get now (chat_token s1) ?RK = Some (TStr x)"
      using k10 by (simp add: m2 kv_get_setex split: if_splits)
    moreover have "?RK \<noteq> getUserTokenKey (toLowerCase ?U) old"
      using userTokenKey_neq_tokenKey[of ?U old] by simp
    ultimately have "kv_get now (chat_token s) ?RK = Some (TStr x)"
      using validateAuth_keeps[OF v] by simp
    with bound a show "toLowerCase x = toLowerCase ?U" by simp
  qed
  have uk3: "kv_get now' ?m3 ?UK = None"
    using deleteToken_ok(2)[OF d ne(2) b2 later] .
  have uk': "kv_get now' (chat_token s') ?UK = None"
    using k1 k2 k3 uk3 by (simp add: m' kv_get_setex)
  \<comment> \<open>the token key no longer names the user\<close>
  have rk3: "kv_get now' ?m3 ?RK = None"
    using deleteToken_ok(1)[OF d ne(2)] by (rule kv_get_None_if_map_of_None)
  have rk': "mappedLowerOf (kv_get now' (chat_token s') ?RK) \<noteq> Some ?U"
  proof (cases "?RK = ?LK")
    case True
    then have ou: "old = ?U" by (simp add: getTokenKey_def)
    have "?LK \<noteq> ?RK'" using True k8 by simp
    then have "kv_get now' (chat_token s') ?RK
        = (if now' < now + ?T * 1000 then Some (deserialize authToken) else None)"
      using True k9 by (simp add: m' kv_get_setex)
    then show ?thesis using alow fresh(2) ou rd by (auto split: if_splits)
  next
    case False
    then have "kv_get now' (chat_token s') ?RK
        = (if ?RK = ?UK' then (if now' < now + ?T * 1000 then Some (TNum now) else None) else None)"
      using k8 rk3 by (simp add: m' kv_get_setex)
    then show ?thesis by (auto split: if_splits)
  qed
  \<comment> \<open>the legacy key holds the new token\<close>
  have lk': "kv_get now' (chat_token s') ?LK \<noteq> Some (TStr old)"
  proof (cases "?LK = ?RK'")
    case True
    then have au: "authToken = ?U" by (simp add: getTokenKey_def)
    from True have "kv_get now' (chat_token s') ?LK
        = (if now' < now + ?T * 1000 then Some (deserialize authToken) else None)"
      by (simp add: m' kv_get_setex au)
    then show ?thesis using fresh(2) rd by (auto split: if_splits)
  next
    case False
    then have "kv_get now' (chat_token s') ?LK
        = (if now' < now + ?T * 1000 then Some (deserialize authToken) else None)"
      using k9 by (simp add: m' kv_get_setex)
    then show ?thesis using fresh(2) rd by (auto split: if_splits)
  qed
  have nd: "\<not> directRecord now' s' ?U old"
    using uk' by (simp add: directRecord_def kv_exists_def)
  have nr: "\<not> reverseRecord now' s' ?U old"
    using rk' by (simp add: reverseRecord_def)
  have nl: "\<not> legacyRecord now' s' ?U old"
    using lk' by (simp add: legacyRecord_def)
  have gr: "graceRecord now' s' ?U old \<longleftrightarrow> now' < now + TOKEN_GRACE_PERIOD * 1000"
    using lastget[of now'] by (simp add: graceRecord_def)
  note rest = validateAuth_rest[OF ne nd nr nl]
  have "kv_get now (chat_token s') ?LAST = Some (TData \<lparr>td_token = old, expiredAt = now\<rparr>)"
    using lastget[of now] by (simp add: GRACE_pos)
  with uk' rk' show ?thesis by (simp add: rest gr)
qed

lemma newToken_generated: "generatedToken newToken"
  by (simp add: generatedToken_def newToken_def isHexDigit_def)

lemma lower_alice: "toLowerCase ''alice'' = ''alice''" "toLowerCase ''Alice'' = ''alice''"
  by code_simp+

lemma refresh_example_status:
  "status (fst (handleRefreshToken TStr 1000 newToken refreshStore \<lparr>rt_username = Some ''Alice'', oldToken = Some ''0a''\<rparr>)) = 201"
  by (simp add: handleRefreshToken_def validateAuth_def deleteToken_def storeLastValidToken_def storeToken_def
        refreshStore_def emptyStore_def lower_alice Let_def kv_get_def kv_exists_def live_def kv_expire_def kv_del_def
        kv_setex_def getUserTokenKey_def getTokenKey_def AUTH_TOKEN_PREFIX_def CHAT_USERS_PREFIX_def
        USER_TTL_SECONDS_def newToken_def)

lemma refresh_invalidates_old_token_example:
  "validateAuth 2000 (snd (handleRefreshToken TStr 1000 newToken refreshStore \<lparr>rt_username = Some ''Alice'', oldToken = Some ''0a''\<rparr>))
        (Some ''Alice'') (Some ''0a'') False
     = (\<lparr>valid = False, expired = None\<rparr>,
        snd (handleRefreshToken TStr 1000 newToken refreshStore \<lparr>rt_username = Some ''Alice'', oldToken = Some ''0a''\<rparr>))
   \<and> validateAuth 2000 (snd (handleRefreshToken TStr 1000 newToken refreshStore \<lparr>rt_username = Some ''Alice'', oldToken = Some ''0a''\<rparr>))
        (Some ''Alice'') (Some ''0a'') True
     = (\<lparr>valid = True, expired = Some True\<rparr>,
        snd (handleRefreshToken TStr 1000 newToken refreshStore \<lparr>rt_username = Some ''Alice'', oldToken = Some ''0a''\<rparr>))"
proof -
  have b: "\<forall>x. kv_get 1000 (chat_token refreshStore) (getTokenKey ''0a'') = Some (TStr x) \<and> x \<noteq> []
             \<longrightarrow> toLowerCase x = toLowerCase ''Alice''"
    by (simp add: refreshStore_def emptyStore_def kv_get_def live_def getTokenKey_def AUTH_TOKEN_PREFIX_def lower_alice)
  have n: "newToken \<noteq> ''0a''" by (simp add: newToken_def)
  have l: "(1000::int) \<le> 2000" by simp
  have rd: "TStr newToken = TStr newToken \<or> (\<exists>n. TStr newToken = TNum n)" by simp
  from refresh_invalidates_old_token[OF prod.collapse[symmetric] refresh_example_status newToken_generated n rd b l]
  show ?thesis by (simp add: TOKEN_GRACE_PERIOD_def)
qed

lemma lower_true: "toLowerCase ''true'' = ''true''"
  by code_simp

lemma valid_true: "USERNAME_REGEX_test ''true''"
  by (simp add: USERNAME_REGEX_test_def isAlpha_def isAlnum_def isDigit_def)

lemma oldHex_generated: "generatedToken oldHex"
  by (simp add: generatedToken_def oldHex_def isHexDigit_def)

text \<open>The token entries of \<open>trueStore\<close> are what the sign-up writes: the legacy key, then
  \<open>storeToken\<close>, then the last-token record.\<close>

lemma trueStore_written:
  "chat_token trueStore =
     chat_token (storeLastValidToken 0
        (storeToken trueAsBoolean 0
           (emptyStore\<lparr>chat_token :=
               kv_setex 0 [] (AUTH_TOKEN_PREFIX @ ''true'') (trueAsBoolean oldHex) USER_EXPIRATION_TIME\<rparr>)
           ''true'' oldHex)
        ''true'' oldHex (0 + USER_EXPIRATION_TIME * 1000) (USER_EXPIRATION_TIME + TOKEN_GRACE_PERIOD))"
  by (simp add: trueStore_def emptyStore_def storeLastValidToken_def storeToken_def Let_def lower_true
        kv_setex_def trueAsBoolean_def oldHex_def getUserTokenKey_def getTokenKey_def
        AUTH_TOKEN_PREFIX_def USER_EXPIRATION_TIME_def TOKEN_GRACE_PERIOD_def getCurrentTimestamp_def)

text \<open>
  Claim C4.  The user \<open>true\<close>, a well-formed name, refreshes the token he signed up with.
  \<open>storeToken\<close> has set the token key to the text \<open>true\<close>, which the client reads back
  as a boolean; \<open>deleteToken\<close> deletes the token key, then takes the boolean for a username
  and throws.  The refresh accepts the token and answers 500, and afterwards the old token
  is still valid for \<open>allowExpired = false\<close>.
\<close>

theorem refresh_keeps_old_token_of_true:
  "USERNAME_REGEX_test ''true''
 \<and> valid (fst (validateAuth 1000 trueStore (Some ''true'') (Some oldHex) True))
 \<and> fst (handleRefreshToken trueAsBoolean 1000 newToken trueStore
           \<lparr>rt_username = Some ''true'', oldToken = Some oldHex\<rparr>)
     = createErrorResponse ''Failed to refresh token'' 500
 \<and> fst (validateAuth 2000
           (snd (handleRefreshToken trueAsBoolean 1000 newToken trueStore
                   \<lparr>rt_username = Some ''true'', oldToken = Some oldHex\<rparr>))
           (Some ''true'') (Some oldHex) False)
     = \<lparr>valid = True, expired = Some False\<rparr>"
proof -
  have k: "getUserTokenKey ''true'' oldHex \<noteq> AUTH_TOKEN_PREFIX @ ''true''"
      "getUserTokenKey ''true'' oldHex \<noteq> getTokenKey oldHex"
      "getUserTokenKey ''true'' oldHex \<noteq> AUTH_TOKEN_PREFIX @ ''last:true''"
      "getTokenKey oldHex \<noteq> AUTH_TOKEN_PREFIX @ ''true''"
      "getTokenKey oldHex \<noteq> AUTH_TOKEN_PREFIX @ ''last:true''"
      "AUTH_TOKEN_PREFIX @ ''last:true'' \<noteq> AUTH_TOKEN_PREFIX @ ''true''"
    by (simp_all add: getUserTokenKey_def getTokenKey_def lower_true oldHex_def)
  have ne: "oldHex \<noteq> []" by (simp add: oldHex_def)
  have v: "validateAuth 1000 trueStore (Some ''true'') (Some oldHex) True
      = (\<lparr>valid = True, expired = Some False\<rparr>,
         trueStore\<lparr>chat_token :=
           [(AUTH_TOKEN_PREFIX @ ''true'', (TStr oldHex, Some 7776000000)),
            (getUserTokenKey ''true'' oldHex, (TNum 0, Some 7776001000)),
            (getTokenKey oldHex, (TBool True, Some 7776001000)),
            (AUTH_TOKEN_PREFIX @ ''last:true'',
               (TData \<lparr>td_token = oldHex, expiredAt = 7776000000\<rparr>, Some 39312000000))]\<rparr>)"
    using k ne
    by (simp add: validateAuth_def Let_def lower_true trueStore_def emptyStore_def kv_exists_def
          kv_get_def live_def kv_expire_def USER_TTL_SECONDS_def)
  have u: "kv_get 1000 (chat_users trueStore) (CHAT_USERS_PREFIX @ ''true'')
             = Some \<lparr>user_username = ''true'', lastActive = 0\<rparr>"
    by (simp add: trueStore_def emptyStore_def kv_get_def live_def CHAT_USERS_PREFIX_def)
  have r: "handleRefreshToken trueAsBoolean 1000 newToken trueStore
           \<lparr>rt_username = Some ''true'', oldToken = Some oldHex\<rparr>
      = (createErrorResponse ''Failed to refresh token'' 500,
         trueStore\<lparr>chat_token :=
           [(AUTH_TOKEN_PREFIX @ ''true'', (TStr oldHex, Some 7776000000)),
            (getUserTokenKey ''true'' oldHex, (TNum 0, Some 7776001000)),
            (AUTH_TOKEN_PREFIX @ ''last:true'',
               (TData \<lparr>td_token = oldHex, expiredAt = 1000\<rparr>, Some 31536001000))]\<rparr>)"
    using k ne u
    by (simp add: handleRefreshToken_def v Let_def lower_true storeLastValidToken_def deleteToken_def
          kv_setex_def kv_del_def kv_get_def live_def TOKEN_GRACE_PERIOD_def)
  have a: "fst (validateAuth 2000
           (snd (handleRefreshToken trueAsBoolean 1000 newToken trueStore
                   \<lparr>rt_username = Some ''true'', oldToken = Some oldHex\<rparr>))
           (Some ''true'') (Some oldHex) False)
     = \<lparr>valid = True, expired = Some False\<rparr>"
    using k ne
    by (simp add: r validateAuth_def Let_def lower_true kv_exists_def kv_get_def live_def)
  from valid_true v r a show ?thesis by simp
qed

lemma getActiveUsersAndPrune_frame:
  "chat_room (snd (getActiveUsersAndPrune now s rid)) = chat_room s"
  "chat_messages (snd (getActiveUsersAndPrune now s rid)) = chat_messages s"
  "chat_presence (snd (getActiveUsersAndPrune now s rid)) = chat_presence s"
  "chat_users (snd (getActiveUsersAndPrune now s rid)) = chat_users s"
  "chat_token (snd (getActiveUsersAndPrune now s rid)) = chat_token s"
  "rl (snd (getActiveUsersAndPrune now s rid)) = rl s"
  by (simp_all add: getActiveUsersAndPrune_def Let_def)

lemma getActiveUsersInRoom_cong:
  "chat_presence s' = chat_presence s \<Longrightarrow> getActiveUsersInRoom now s' rid = getActiveUsersInRoom now s rid"
  by (simp add: getActiveUsersInRoom_def)

lemma getActiveUsersAndPrune_fst:
  "fst (getActiveUsersAndPrune now s rid) = getActiveUsersInRoom now s rid"
  by (simp add: getActiveUsersAndPrune_def Let_def)

lemma detailRooms_fst:
  "chat_room s' = chat_room s \<Longrightarrow> chat_presence s' = chat_presence s \<Longrightarrow>
   fst (detailRooms now s' keys)
     = map (roomEntry now s) (List.map_filter (kv_get now (chat_room s)) keys)"
proof (induction keys arbitrary: s')
  case Nil
  show ?case by (simp add: List.map_filter_simps)
next
  case (Cons key keys)
  show ?case
  proof (cases "kv_get now (chat_room s) key")
    case None
    with Cons show ?thesis by (simp add: List.map_filter_simps)
  next
    case (Some roomObj)
    obtain au s1 where p: "getActiveUsersAndPrune now s' (room_id roomObj) = (au, s1)"
      by (cases "getActiveUsersAndPrune now s' (room_id roomObj)")
    have au: "au = getActiveUsersInRoom now s (room_id roomObj)"
      using getActiveUsersAndPrune_fst[of now s' "room_id roomObj"] p
        getActiveUsersInRoom_cong[OF Cons.prems(2)] by simp
    have s1: "chat_room s1 = chat_room s" "chat_presence s1 = chat_presence s"
      using getActiveUsersAndPrune_frame(1,3)[of now s' "room_id roomObj"] p Cons.prems by simp_all
    from Cons.IH[OF s1] Some p Cons.prems au show ?thesis
      by (simp add: List.map_filter_simps split_beta roomEntry_def Let_def)
  qed
qed

lemma getDetailedRooms_set:
  "set (fst (getDetailedRooms now s))
     = {roomEntry now s r | r k. prefix CHAT_ROOM_PREFIX k \<and> kv_get now (chat_room s) k = Some r}"
proof -
  have "set (fst (getDetailedRooms now s))
      = roomEntry now s ` {r. \<exists>k \<in> set (kv_scan_prefix now (chat_room s) CHAT_ROOM_PREFIX).
                               kv_get now (chat_room s) k = Some r}"
    by (force simp: getDetailedRooms_def detailRooms_fst List.map_filter_def)
  also have "\<dots> = {roomEntry now s r | r k. prefix CHAT_ROOM_PREFIX k \<and> kv_get now (chat_room s) k = Some r}"
    by (auto simp: set_kv_scan_prefix kv_exists_def)
  finally show ?thesis .
qed

lemma roomEntry_fields:
  "room_type (roomEntry now s r) = room_type r"
  "members (roomEntry now s r) = members r"
  "room_id (roomEntry now s r) = room_id r"
  "room_name (roomEntry now s r) = room_name r"
  "createdAt (roomEntry now s r) = createdAt r"
  "users (roomEntry now s r) = getActiveUsersInRoom now s (room_id r)"
  "userCount (roomEntry now s r) = int (length (getActiveUsersInRoom now s (room_id r)))"
  by (simp_all add: roomEntry_def Let_def Room.defs RoomWithUsers.defs)

lemma handleGetRooms_fst:
  "fst (handleGetRooms now s viewer)
      = \<lparr>status = 200, body = RoomsBody (filterRoomsForUser (fst (getDetailedRooms now s)) viewer)\<rparr>"
proof -
  have low: "\<And>x. toLowerCase x = [] \<longleftrightarrow> x = []" by (simp add: toLowerCase_def)
  have f: "\<And>xs. filter (\<lambda>room. (room_type room = None \<or> room_type room = Some Public \<longrightarrow> True) \<and>
              (\<not> (room_type room = None \<or> room_type room = Some Public) \<longrightarrow> False)) xs
          = filter (\<lambda>room. room_type room = None \<or> room_type room = Some Public) xs"
    by (rule filter_cong) auto
  show ?thesis
  proof (cases viewer)
    case None
    with f show ?thesis
      by (simp add: handleGetRooms_def filterRoomsForUser_def split_beta Let_def cong: if_cong)
  next
    case (Some u)
    show ?thesis
    proof (cases "u = []")
      case True
      with Some f show ?thesis
        by (simp add: handleGetRooms_def filterRoomsForUser_def split_beta Let_def low)
    next
      case False
      with Some show ?thesis
        by (simp add: handleGetRooms_def filterRoomsForUser_def split_beta Let_def low)
    qed
  qed
qed

lemma filterRoomsForUser_set:
  "set (filterRoomsForUser rooms viewer)
     = {room \<in> set rooms. room_type room = None \<or> room_type room = Some Public
          \<or> (room_type room = Some Private
              \<and> (\<exists>u ms. viewer = Some u \<and> u \<noteq> [] \<and> members room = Some ms \<and> toLowerCase u \<in> set ms))}"
proof (cases "falsy viewer")
  case True
  then show ?thesis by (cases viewer) (auto simp: filterRoomsForUser_def)
next
  case False
  then obtain u where u: "viewer = Some u" "u \<noteq> []" by (cases viewer) auto
  then show ?thesis by (auto simp: filterRoomsForUser_def Let_def)
qed

text \<open>
  Claim C7.  The room listing \<open>handleGetRooms\<close> answers 200 with a list in which every
  entry is a stored room (with its active users); a stored public room is listed for every
  viewer; a stored private room is listed exactly when the viewer is named and the
  lowercased name is in the room's members list, so never for an anonymous viewer.  The
  filter \<open>filterRoomsForUser\<close> selects by the same rule on any list of rooms.
\<close>

theorem room_visibility:
  "(falsy viewer \<longrightarrow>
      (\<forall>room \<in> set (filterRoomsForUser rooms viewer). room_type room \<noteq> Some Private))
 \<and> (u \<noteq> [] \<and> room_type room = Some Private \<longrightarrow>
      (room \<in> set (filterRoomsForUser rooms (Some u)) \<longleftrightarrow>
         room \<in> set rooms \<and> (\<exists>ms. members room = Some ms \<and> toLowerCase u \<in> set ms)))
 \<and> (room \<in> set rooms \<and> (room_type room = None \<or> room_type room = Some Public) \<longrightarrow>
      room \<in> set (filterRoomsForUser rooms viewer))
 \<and> set (filterRoomsForUser rooms viewer) \<subseteq> set rooms
 \<and> fst (handleGetRooms now s viewer)
      = \<lparr>status = 200, body = RoomsBody (filterRoomsForUser (fst (getDetailedRooms now s)) viewer)\<rparr>
 \<and> (\<exists>listing. fst (handleGetRooms now s viewer) = \<lparr>status = 200, body = RoomsBody listing\<rparr>
      \<and> (\<forall>e \<in> set listing. \<exists>k r. prefix CHAT_ROOM_PREFIX k \<and> kv_get now (chat_room s) k = Some r
                                 \<and> e = roomEntry now s r)
      \<and> (falsy viewer \<longrightarrow> (\<forall>e \<in> set listing. room_type e \<noteq> Some Private))
      \<and> (prefix CHAT_ROOM_PREFIX key \<and> kv_get now (chat_room s) key = Some roomObj \<longrightarrow>
            (room_type roomObj = None \<or> room_type roomObj = Some Public \<longrightarrow>
               roomEntry now s roomObj \<in> set listing)
          \<and> (room_type roomObj = Some Private \<longrightarrow>
               (roomEntry now s roomObj \<in> set listing \<longleftrightarrow>
                  (\<exists>v ms. viewer = Some v \<and> v \<noteq> [] \<and> members roomObj = Some ms
                          \<and> toLowerCase v \<in> set ms)))))"
proof -
  have 1: "falsy viewer \<longrightarrow>
      (\<forall>room \<in> set (filterRoomsForUser rooms viewer). room_type room \<noteq> Some Private)"
    by (auto simp: filterRoomsForUser_def)
  have 2: "u \<noteq> [] \<and> room_type room = Some Private \<longrightarrow>
      (room \<in> set (filterRoomsForUser rooms (Some u)) \<longleftrightarrow>
         room \<in> set rooms \<and> (\<exists>ms. members room = Some ms \<and> toLowerCase u \<in> set ms))"
    by (auto simp: filterRoomsForUser_def Let_def)
  have 3: "room \<in> set rooms \<and> (room_type room = None \<or> room_type room = Some Public) \<longrightarrow>
      room \<in> set (filterRoomsForUser rooms viewer)"
    by (auto simp: filterRoomsForUser_def Let_def)
  have 4: "set (filterRoomsForUser rooms viewer) \<subseteq> set rooms"
    by (auto simp: filterRoomsForUser_def Let_def)
  let ?L = "filterRoomsForUser (fst (getDetailedRooms now s)) viewer"
  have 5: "fst (handleGetRooms now s viewer) = \<lparr>status = 200, body = RoomsBody ?L\<rparr>"
    by (rule handleGetRooms_fst)
  have a: "\<forall>e \<in> set ?L. \<exists>k r. prefix CHAT_ROOM_PREFIX k \<and> kv_get now (chat_room s) k = Some r
                                 \<and> e = roomEntry now s r"
    by (auto simp: filterRoomsForUser_set getDetailedRooms_set)
  have b: "falsy viewer \<longrightarrow> (\<forall>e \<in> set ?L. room_type e \<noteq> Some Private)"
    by (auto simp: filterRoomsForUser_def)
  have c: "prefix CHAT_ROOM_PREFIX key \<and> kv_get now (chat_room s) key = Some roomObj \<longrightarrow>
            (room_type roomObj = None \<or> room_type roomObj = Some Public \<longrightarrow>
               roomEntry now s roomObj \<in> set ?L)
          \<and> (room_type roomObj = Some Private \<longrightarrow>
               (roomEntry now s roomObj \<in> set ?L \<longleftrightarrow>
                  (\<exists>v ms. viewer = Some v \<and> v \<noteq> [] \<and> members roomObj = Some ms
                          \<and> toLowerCase v \<in> set ms)))"
  proof (intro impI)
    assume k: "prefix CHAT_ROOM_PREFIX key \<and> kv_get now (chat_room s) key = Some roomObj"
    then have inAll: "roomEntry now s roomObj \<in> set (fst (getDetailedRooms now s))"
      unfolding getDetailedRooms_set by blast
    show "(room_type roomObj = None \<or> room_type roomObj = Some Public \<longrightarrow>
               roomEntry now s roomObj \<in> set ?L)
          \<and> (room_type roomObj = Some Private \<longrightarrow>
               (roomEntry now s roomObj \<in> set ?L \<longleftrightarrow>
                  (\<exists>v ms. viewer = Some v \<and> v \<noteq> [] \<and> members roomObj = Some ms
                          \<and> toLowerCase v \<in> set ms)))"
      using inAll by (simp add: filterRoomsForUser_set roomEntry_fields)
  qed
  from 5 a b c have 6: "\<exists>listing. fst (handleGetRooms now s viewer) = \<lparr>status = 200, body = RoomsBody listing\<rparr>
      \<and> (\<forall>e \<in> set listing. \<exists>k r. prefix CHAT_ROOM_PREFIX k \<and> kv_get now (chat_room s) k = Some r
                                 \<and> e = roomEntry now s r)
      \<and> (falsy viewer \<longrightarrow> (\<forall>e \<in> set listing. room_type e \<noteq> Some Private))
      \<and> (prefix CHAT_ROOM_PREFIX key \<and> kv_get now (chat_room s) key = Some roomObj \<longrightarrow>
            (room_type roomObj = None \<or> room_type roomObj = Some Public \<longrightarrow>
               roomEntry now s roomObj \<in> set listing)
          \<and> (room_type roomObj = Some Private \<longrightarrow>
               (roomEntry now s roomObj \<in> set listing \<longleftrightarrow>
                  (\<exists>v ms. viewer = Some v \<and> v \<noteq> [] \<and> members roomObj = Some ms
                          \<and> toLowerCase v \<in> set ms))))"
    by blast
  from 1 2 3 4 5 6 show ?thesis by blast
qed

lemma lower_names: "toLowerCase ''Alice'' = ''alice''" "toLowerCase ''alice'' = ''alice''"
    "toLowerCase ''bob'' = ''bob''" "toLowerCase ''carol'' = ''carol''"
  by code_simp+

theorem room_visibility_witness:
  "(\<exists>listing. fst (handleGetRooms 1000 listStore None) = \<lparr>status = 200, body = RoomsBody listing\<rparr>
      \<and> roomEntry 1000 listStore lobby \<in> set listing
      \<and> roomEntry 1000 listStore room2 \<notin> set listing)
 \<and> (\<exists>listing. fst (handleGetRooms 1000 listStore (Some ''Alice'')) = \<lparr>status = 200, body = RoomsBody listing\<rparr>
      \<and> roomEntry 1000 listStore lobby \<in> set listing
      \<and> roomEntry 1000 listStore room2 \<in> set listing)
 \<and> (\<exists>listing. fst (handleGetRooms 1000 listStore (Some ''carol'')) = \<lparr>status = 200, body = RoomsBody listing\<rparr>
      \<and> roomEntry 1000 listStore lobby \<in> set listing
      \<and> roomEntry 1000 listStore room2 \<notin> set listing)
 \<and> users (roomEntry 1000 listStore room2) = [''alice'']"
proof -
  have k0: "prefix CHAT_ROOM_PREFIX ''chat:room:r0'' \<and> kv_get 1000 (chat_room listStore) ''chat:room:r0'' = Some lobby"
    and k1: "prefix CHAT_ROOM_PREFIX ''chat:room:r1'' \<and> kv_get 1000 (chat_room listStore) ''chat:room:r1'' = Some room2"
    by (simp_all add: listStore_def emptyStore_def kv_get_def live_def CHAT_ROOM_PREFIX_def)
  have t: "room_type lobby = Some Public" "room_type room2 = Some Private"
      "members room2 = Some [''alice'', ''bob'']"
    by (simp_all add: lobby_def room2_def)
  have a: "\<And>viewer. \<exists>listing. fst (handleGetRooms 1000 listStore viewer) = \<lparr>status = 200, body = RoomsBody listing\<rparr>
      \<and> roomEntry 1000 listStore lobby \<in> set listing
      \<and> (roomEntry 1000 listStore room2 \<in> set listing \<longleftrightarrow>
            (\<exists>v. viewer = Some v \<and> v \<noteq> [] \<and> toLowerCase v \<in> {''alice'', ''bob''}))"
  proof -
    fix viewer
    from room_visibility[of viewer "[pubRoom]" "[]" pubRoom 1000 listStore "''chat:room:r0''" lobby] k0 t
    obtain l0 where l0: "fst (handleGetRooms 1000 listStore viewer) = \<lparr>status = 200, body = RoomsBody l0\<rparr>"
        "roomEntry 1000 listStore lobby \<in> set l0"
      by auto
    from room_visibility[of viewer "[pubRoom]" "[]" pubRoom 1000 listStore "''chat:room:r1''" room2] k1 t
    obtain l1 where l1: "fst (handleGetRooms 1000 listStore viewer) = \<lparr>status = 200, body = RoomsBody l1\<rparr>"
        "roomEntry 1000 listStore room2 \<in> set l1 \<longleftrightarrow>
            (\<exists>v. viewer = Some v \<and> v \<noteq> [] \<and> toLowerCase v \<in> {''alice'', ''bob''})"
      by auto
    from l0(1) l1(1) have "l0 = l1" by simp
    with l0 l1 show "\<exists>listing. fst (handleGetRooms 1000 listStore viewer) = \<lparr>status = 200, body = RoomsBody listing\<rparr>
      \<and> roomEntry 1000 listStore lobby \<in> set listing
      \<and> (roomEntry 1000 listStore room2 \<in> set listing \<longleftrightarrow>
            (\<exists>v. viewer = Some v \<and> v \<noteq> [] \<and> toLowerCase v \<in> {''alice'', ''bob''}))"
      by blast
  qed
  have carol: "toLowerCase ''carol'' \<notin> {''alice'', ''bob''}" by (simp add: lower_names)
  have alice: "toLowerCase ''Alice'' \<in> {''alice'', ''bob''}" by (simp add: lower_names)
  have c1: "\<exists>listing. fst (handleGetRooms 1000 listStore None) = \<lparr>status = 200, body = RoomsBody listing\<rparr>
      \<and> roomEntry 1000 listStore lobby \<in> set listing
      \<and> roomEntry 1000 listStore room2 \<notin> set listing"
    using a[of None] by simp
  have c2: "\<exists>listing. fst (handleGetRooms 1000 listStore (Some ''Alice'')) = \<lparr>status = 200, body = RoomsBody listing\<rparr>
      \<and> roomEntry 1000 listStore lobby \<in> set listing
      \<and> roomEntry 1000 listStore room2 \<in> set listing"
    using a[of "Some ''Alice''"] alice by simp
  have c3: "\<exists>listing. fst (handleGetRooms 1000 listStore (Some ''carol'')) = \<lparr>status = 200, body = RoomsBody listing\<rparr>
      \<and> roomEntry 1000 listStore lobby \<in> set listing
      \<and> roomEntry 1000 listStore room2 \<notin> set listing"
    using a[of "Some ''carol''"] carol by simp
  have c4: "users (roomEntry 1000 listStore room2) = [''alice'']"
    by (simp add: roomEntry_fields room2_def getActiveUsersInRoom_def kv_scan_prefix_def listStore_def
          emptyStore_def kv_exists_def kv_get_def live_def CHAT_ROOM_PRESENCE_PREFIX_def lastPart_def)
  from c1 c2 c3 c4 show ?thesis by blast
qed












lemma valid_alice: "USERNAME_REGEX_test (toLowerCase ''Alice'')"
  by (simp add: lower_names USERNAME_REGEX_test_def isAlpha_def isAlnum_def isDigit_def)

lemma valid_rooms: "ROOM_ID_REGEX_test ''r1''" "ROOM_ID_REGEX_test ''r2''"
  by (simp_all add: ROOM_ID_REGEX_test_def isAlpha_def isAlnum_def isDigit_def)





lemma USERNAME_REGEX_length:
  "USERNAME_REGEX_test u \<Longrightarrow> MIN_USERNAME_LENGTH \<le> length u \<and> length u \<le> MAX_USERNAME_LENGTH"
  by (cases u) (auto simp: USERNAME_REGEX_test_def MIN_USERNAME_LENGTH_def MAX_USERNAME_LENGTH_def)

lemma ensureUserExists_ok:
  assumes "\<not> isProfane u" and "USERNAME_REGEX_test u"
  shows "\<exists>ud. fst (ensureUserExists isProfane now s u) = Inr ud"
    and "chat_room (snd (ensureUserExists isProfane now s u)) = chat_room s"
    and "chat_messages (snd (ensureUserExists isProfane now s u)) = chat_messages s"
    and "chat_presence (snd (ensureUserExists isProfane now s u)) = chat_presence s"
    and "rl (snd (ensureUserExists isProfane now s u)) = rl s"
    and "chat_token (snd (ensureUserExists isProfane now s u)) = chat_token s"
proof -
  from USERNAME_REGEX_length[OF assms(2)]
  have len: "\<not> length u < MIN_USERNAME_LENGTH" "\<not> length u > MAX_USERNAME_LENGTH" by auto
  show "\<exists>ud. fst (ensureUserExists isProfane now s u) = Inr ud"
  proof (cases "kv_get now (chat_users s) (CHAT_USERS_PREFIX @ u)")
    case None
    then show ?thesis using assms len
      by (simp add: ensureUserExists_def Let_def kv_setnx_def kv_exists_def)
  next
    case (Some ud)
    then show ?thesis using assms len by (simp add: ensureUserExists_def Let_def)
  qed
  show "chat_room (snd (ensureUserExists isProfane now s u)) = chat_room s"
    by (simp add: ensureUserExists_def Let_def split_beta split: option.splits)
  show "chat_messages (snd (ensureUserExists isProfane now s u)) = chat_messages s"
    by (simp add: ensureUserExists_def Let_def split_beta split: option.splits)
  show "chat_presence (snd (ensureUserExists isProfane now s u)) = chat_presence s"
    by (simp add: ensureUserExists_def Let_def split_beta split: option.splits)
  show "rl (snd (ensureUserExists isProfane now s u)) = rl s"
    by (simp add: ensureUserExists_def Let_def split_beta split: option.splits)
  show "chat_token (snd (ensureUserExists isProfane now s u)) = chat_token s"
    by (simp add: ensureUserExists_def Let_def split_beta split: option.splits)
qed

lemma burstRateLimit_frame:
  "chat_room (snd (burstRateLimit now s r u)) = chat_room s"
  "chat_messages (snd (burstRateLimit now s r u)) = chat_messages s"
  "chat_users (snd (burstRateLimit now s r u)) = chat_users s"
  "chat_presence (snd (burstRateLimit now s r u)) = chat_presence s"
  "chat_token (snd (burstRateLimit now s r u)) = chat_token s"
  by (simp_all add: burstRateLimit_def Let_def split_beta split: option.splits)

lemma burstRateLimit_private:
  "kv_get now (chat_room s) (CHAT_ROOM_PREFIX @ r) = Some roomObj \<Longrightarrow> room_type roomObj = Some Private \<Longrightarrow>
   burstRateLimit now s r u = (None, s)"
  by (simp add: burstRateLimit_def Let_def)

lemma burstRateLimit_None_room:
  "fst (burstRateLimit now s r u) = None \<Longrightarrow> kv_exists now (chat_room s) (CHAT_ROOM_PREFIX @ r)"
  by (auto simp: burstRateLimit_def Let_def kv_exists_def split_beta split: option.splits if_splits)

lemma refreshRoomPresence_frame:
  "chat_room (refreshRoomPresence now s r u) = chat_room s"
  "chat_messages (refreshRoomPresence now s r u) = chat_messages s"
  "chat_users (refreshRoomPresence now s r u) = chat_users s"
  "rl (refreshRoomPresence now s r u) = rl s"
  "chat_token (refreshRoomPresence now s r u) = chat_token s"
  by (simp_all add: refreshRoomPresence_def Let_def)

lemma handleSendMessage_passed:
  assumes vu: "USERNAME_REGEX_test (toLowerCase (sm_username data))"
    and vr: "ROOM_ID_REGEX_test (sm_roomId data)"
    and ne: "sm_content data \<noteq> []"
    and np: "\<not> isProfane (toLowerCase (sm_username data))"
    and b: "fst (burstRateLimit now s (sm_roomId data) (toLowerCase (sm_username data))) = None"
  shows "fst (handleSendMessage clean isProfane now mid s data) =
      (if MAX_MESSAGE_LENGTH < length (escapeHTML (filterProfanityPreservingUrls clean (sm_content data)))
       then createErrorResponse ''Message exceeds maximum length of 1000 characters'' 400
       else if isDuplicate now s (sm_roomId data) (toLowerCase (sm_username data))
                 (escapeHTML (filterProfanityPreservingUrls clean (sm_content data)))
       then createErrorResponse ''Duplicate message detected'' 400
       else \<lparr>status = 201, body = MessageBody
               \<lparr>msg_id = mid, msg_roomId = sm_roomId data,
                msg_username = toLowerCase (sm_username data),
                msg_content = escapeHTML (filterProfanityPreservingUrls clean (sm_content data)),
                msg_timestamp = now\<rparr>\<rparr>)"
    and "chat_messages (snd (handleSendMessage clean isProfane now mid s data)) =
      (if MAX_MESSAGE_LENGTH < length (escapeHTML (filterProfanityPreservingUrls clean (sm_content data)))
          \<or> isDuplicate now s (sm_roomId data) (toLowerCase (sm_username data))
                 (escapeHTML (filterProfanityPreservingUrls clean (sm_content data)))
       then chat_messages s
       else kv_ltrim now
              (kv_lpush now (chat_messages s) (CHAT_MESSAGES_PREFIX @ sm_roomId data)
                 \<lparr>msg_id = mid, msg_roomId = sm_roomId data,
                  msg_username = toLowerCase (sm_username data),
                  msg_content = escapeHTML (filterProfanityPreservingUrls clean (sm_content data)),
                  msg_timestamp = now\<rparr>)
              (CHAT_MESSAGES_PREFIX @ sm_roomId data) 0 99)"
    and "rl (snd (handleSendMessage clean isProfane now mid s data))
           = rl (snd (burstRateLimit now s (sm_roomId data) (toLowerCase (sm_username data))))"
    and "chat_room (snd (handleSendMessage clean isProfane now mid s data)) = chat_room s"
proof -
  let ?u = "toLowerCase (sm_username data)"
  let ?r = "sm_roomId data"
  obtain s1 where s1: "burstRateLimit now s ?r ?u = (None, s1)"
    using b by (cases "burstRateLimit now s ?r ?u") auto
  have s1f: "chat_room s1 = chat_room s" "chat_messages s1 = chat_messages s"
    using burstRateLimit_frame(1,2)[of now s ?r ?u] s1 by simp_all
  have ex: "kv_exists now (chat_room s1) (CHAT_ROOM_PREFIX @ ?r)"
    using burstRateLimit_None_room[OF b] s1f by simp
  obtain ud where "fst (ensureUserExists isProfane now s1 ?u) = Inr ud"
    using ensureUserExists_ok(1)[of isProfane ?u now s1, OF np vu] by blast
  then obtain s2 where s2: "ensureUserExists isProfane now s1 ?u = (Inr ud, s2)"
    by (cases "ensureUserExists isProfane now s1 ?u") auto
  have s2f: "chat_room s2 = chat_room s" "chat_messages s2 = chat_messages s" "rl s2 = rl s1"
    using ensureUserExists_ok(2)[of isProfane ?u now s1, OF np vu]
      ensureUserExists_ok(3)[of isProfane ?u now s1, OF np vu]
      ensureUserExists_ok(5)[of isProfane ?u now s1, OF np vu] s2 s1f by simp_all
  note unf = handleSendMessage_def Let_def assertValidUsername_def assertValidRoomId_def
      isDuplicate_def getCurrentTimestamp_def refreshRoomPresence_frame
  show "fst (handleSendMessage clean isProfane now mid s data) =
      (if MAX_MESSAGE_LENGTH < length (escapeHTML (filterProfanityPreservingUrls clean (sm_content data)))
       then createErrorResponse ''Message exceeds maximum length of 1000 characters'' 400
       else if isDuplicate now s (sm_roomId data) (toLowerCase (sm_username data))
                 (escapeHTML (filterProfanityPreservingUrls clean (sm_content data)))
       then createErrorResponse ''Duplicate message detected'' 400
       else \<lparr>status = 201, body = MessageBody
               \<lparr>msg_id = mid, msg_roomId = sm_roomId data,
                msg_username = toLowerCase (sm_username data),
                msg_content = escapeHTML (filterProfanityPreservingUrls clean (sm_content data)),
                msg_timestamp = now\<rparr>\<rparr>)"
    using vu vr ne s1 ex s2 s2f by (simp add: unf)
  show "chat_messages (snd (handleSendMessage clean isProfane now mid s data)) =
      (if MAX_MESSAGE_LENGTH < length (escapeHTML (filterProfanityPreservingUrls clean (sm_content data)))
          \<or> isDuplicate now s (sm_roomId data) (toLowerCase (sm_username data))
                 (escapeHTML (filterProfanityPreservingUrls clean (sm_content data)))
       then chat_messages s
       else kv_ltrim now
              (kv_lpush now (chat_messages s) (CHAT_MESSAGES_PREFIX @ sm_roomId data)
                 \<lparr>msg_id = mid, msg_roomId = sm_roomId data,
                  msg_username = toLowerCase (sm_username data),
                  msg_content = escapeHTML (filterProfanityPreservingUrls clean (sm_content data)),
                  msg_timestamp = now\<rparr>)
              (CHAT_MESSAGES_PREFIX @ sm_roomId data) 0 99)"
    using vu vr ne s1 ex s2 s2f by (simp add: unf)
  show "rl (snd (handleSendMessage clean isProfane now mid s data))
           = rl (snd (burstRateLimit now s (sm_roomId data) (toLowerCase (sm_username data))))"
    using vu vr ne s1 ex s2 s2f by (simp add: unf)
  show "chat_room (snd (handleSendMessage clean isProfane now mid s data)) = chat_room s"
    using vu vr ne s1 ex s2 s2f by (simp add: unf)
qed

lemma kv_lrange_after_push:
  "kv_lrange now (kv_ltrim now (kv_lpush now m k v) k 0 99) k 0 0 = [v]"
proof (cases "map_of m k")
  case None
  then show ?thesis
    by (simp add: kv_lrange_def kv_ltrim_def kv_lpush_def kv_get_def update_conv' live_def)
next
  case (Some e)
  show ?thesis
  proof (cases "live now e")
    case True
    with Some show ?thesis
      by (simp add: kv_lrange_def kv_ltrim_def kv_lpush_def kv_get_def update_conv' live_def)
  next
    case False
    with Some show ?thesis
      by (simp add: kv_lrange_def kv_ltrim_def kv_lpush_def kv_get_def update_conv' live_def)
  qed
qed


lemma ensureUserExists_Inr:
  "fst (ensureUserExists isProfane now s u) = Inr ud \<Longrightarrow> \<not> isProfane u"
  by (auto simp: ensureUserExists_def Let_def split: if_splits)


lemma matchUrlAt_h: "matchUrlAt s = Some n \<Longrightarrow> CHR ''h'' \<in> set s"
  by (auto simp: matchUrlAt_def prefix_def split: if_splits)

lemma urlMatchesFrom_no_h: "CHR ''h'' \<notin> set c \<Longrightarrow> urlMatchesFrom c i = []"
proof (induction c i rule: urlMatchesFrom.induct)
  case (1 content i)
  show ?case
  proof (cases "length content \<le> i")
    case True
    then show ?thesis by (simp add: urlMatchesFrom.simps)
  next
    case False
    have "matchUrlAt (drop i content) = None"
    proof (cases "matchUrlAt (drop i content)")
      case (Some n)
      from matchUrlAt_h[OF this] have "CHR ''h'' \<in> set content" by (auto dest: in_set_dropD)
      with 1(3) show ?thesis by simp
    qed simp
    with False 1(1)[OF False this 1(3)] show ?thesis
      by (simp add: urlMatchesFrom.simps[of content i])
  qed
qed

lemma filterProfanity_no_url:
  "CHR ''h'' \<notin> set c \<Longrightarrow> filterProfanityPreservingUrls clean c = clean c"
  by (simp add: filterProfanityPreservingUrls_def urlMatchesFrom_no_h)

lemma escapeHTML_amp: "escapeHTML (replicate n CHR ''&'') = concat (replicate n ''&amp;'')"
  by (induction n) (simp_all add: escapeHTML_def escapeChar_def)

lemma length_escapeHTML_amp: "length (escapeHTML (replicate n CHR ''&'')) = 5 * n"
  by (induction n) (simp_all add: escapeHTML_def escapeChar_def)

lemma valid_alice_lc: "USERNAME_REGEX_test ''alice''"
  by (simp add: USERNAME_REGEX_test_def isAlpha_def isAlnum_def isDigit_def)

lemma valid_r0: "ROOM_ID_REGEX_test ''r0''"
  by (simp add: ROOM_ID_REGEX_test_def isAlpha_def isAlnum_def isDigit_def)

lemma sanitize_hi: "escapeHTML (filterProfanityPreservingUrls (\<lambda>x. x) ''hi'') = ''hi''"
  by (simp add: filterProfanity_id escapeHTML_def escapeChar_def)

lemma sanitize_ho: "escapeHTML (filterProfanityPreservingUrls (\<lambda>x. x) ''ho'') = ''ho''"
  by (simp add: filterProfanity_id escapeHTML_def escapeChar_def)

lemma isDuplicate_after_send:
  "isDuplicate now
     (s\<lparr>chat_messages := kv_ltrim now (kv_lpush now m (CHAT_MESSAGES_PREFIX @ r)
          \<lparr>msg_id = mid, msg_roomId = r, msg_username = u, msg_content = c, msg_timestamp = t\<rparr>)
          (CHAT_MESSAGES_PREFIX @ r) 0 99\<rparr>) r u' c'
   \<longleftrightarrow> u' = u \<and> c' = c"
  by (auto simp: isDuplicate_def kv_lrange_after_push)

lemma isDuplicate_cong: "chat_messages s' = chat_messages s \<Longrightarrow> isDuplicate now s' r u c = isDuplicate now s r u c"
  by (simp add: isDuplicate_def)

lemma isDuplicate_after_handle:
  assumes vu: "USERNAME_REGEX_test (toLowerCase un)"
    and vr: "ROOM_ID_REGEX_test r"
    and ne: "c \<noteq> []"
    and np: "\<not> isProfane (toLowerCase un)"
    and b: "fst (burstRateLimit now s r (toLowerCase un)) = None"
    and len: "length (escapeHTML (filterProfanityPreservingUrls clean c)) \<le> MAX_MESSAGE_LENGTH"
  shows "isDuplicate now
           (snd (handleSendMessage clean isProfane now mid s \<lparr>sm_roomId = r, sm_username = un, sm_content = c\<rparr>))
           r (toLowerCase un) c'
         \<longleftrightarrow> c' = escapeHTML (filterProfanityPreservingUrls clean c)"
proof -
  let ?d = "\<lparr>sm_roomId = r, sm_username = un, sm_content = c\<rparr>"
  let ?san = "escapeHTML (filterProfanityPreservingUrls clean c)"
  let ?s' = "snd (handleSendMessage clean isProfane now mid s ?d)"
  have p: "USERNAME_REGEX_test (toLowerCase (sm_username ?d))" "ROOM_ID_REGEX_test (sm_roomId ?d)"
      "sm_content ?d \<noteq> []" "\<not> isProfane (toLowerCase (sm_username ?d))"
      "fst (burstRateLimit now s (sm_roomId ?d) (toLowerCase (sm_username ?d))) = None"
    using vu vr ne np b by simp_all
  note m = handleSendMessage_passed(2)[of ?d isProfane now s clean mid, OF p]
  show ?thesis
  proof (cases "isDuplicate now s r (toLowerCase un) ?san")
    case True
    with m len have cm: "chat_messages ?s' = chat_messages s" by simp
    have head: "\<And>x. isDuplicate now s r (toLowerCase un) x \<longleftrightarrow> x = ?san"
      using True by (auto simp: isDuplicate_def split: list.splits)
    show ?thesis using head by (simp add: isDuplicate_cong[OF cm])
  next
    case False
    with m len have cm: "chat_messages ?s' = kv_ltrim now
              (kv_lpush now (chat_messages s) (CHAT_MESSAGES_PREFIX @ r)
                 \<lparr>msg_id = mid, msg_roomId = r, msg_username = toLowerCase un,
                  msg_content = ?san, msg_timestamp = now\<rparr>)
              (CHAT_MESSAGES_PREFIX @ r) 0 99"
      by simp
    show ?thesis
      by (auto simp: isDuplicate_def cm kv_lrange_after_push)
  qed
qed






lemma msgStore_room: "kv_get 5000 (chat_room msgStore) (CHAT_ROOM_PREFIX @ ''r1'') = Some room2"
  by (simp add: msgStore_def emptyStore_def kv_get_def live_def CHAT_ROOM_PREFIX_def)

lemma room2_private: "room_type room2 = Some Private"
  by (simp add: room2_def)

lemma msgStore_head:
  "kv_lrange 5000 (chat_messages msgStore) (CHAT_MESSAGES_PREFIX @ ''r1'') 0 0 = [hiMessage]"
  by (simp add: msgStore_def emptyStore_def kv_lrange_def kv_get_def live_def CHAT_MESSAGES_PREFIX_def)


lemma handleSendMessage_content_only:
  assumes "c \<noteq> []" "c2 \<noteq> []"
    and "escapeHTML (filterProfanityPreservingUrls clean c2) = escapeHTML (filterProfanityPreservingUrls clean c)"
  shows "handleSendMessage clean isProfane now mid s \<lparr>sm_roomId = r, sm_username = un, sm_content = c2\<rparr>
       = handleSendMessage clean isProfane now mid s \<lparr>sm_roomId = r, sm_username = un, sm_content = c\<rparr>"
proof (cases "assertValidUsername (toLowerCase un)")
  case (Some e)
  then show ?thesis by (simp add: handleSendMessage_def Let_def)
next
  case None
  note vu = this
  show ?thesis
  proof (cases "assertValidRoomId r")
    case (Some e)
    with vu show ?thesis by (simp add: handleSendMessage_def Let_def)
  next
    case None
    with vu assms show ?thesis
      by (simp add: handleSendMessage_def Let_def
            cong del: option.case_cong_weak prod.case_cong_weak sum.case_cong_weak
                      list.case_cong_weak if_weak_cong)
  qed
qed

lemma burst_not_length:
  "fst (burstRateLimit now s r u) = Some resp \<Longrightarrow>
   resp \<noteq> createErrorResponse ''Message exceeds maximum length of 1000 characters'' 400"
  by (auto simp: burstRateLimit_def Let_def split_beta createErrorResponse_def
           split: option.splits if_splits)

lemma handleSendMessage_length_inv:
  assumes "fst (handleSendMessage clean isProfane now mid s data)
             = createErrorResponse ''Message exceeds maximum length of 1000 characters'' 400"
  shows "USERNAME_REGEX_test (toLowerCase (sm_username data))"
    and "ROOM_ID_REGEX_test (sm_roomId data)"
    and "sm_content data \<noteq> []"
    and "\<not> isProfane (toLowerCase (sm_username data))"
    and "fst (burstRateLimit now s (sm_roomId data) (toLowerCase (sm_username data))) = None"
    and "MAX_MESSAGE_LENGTH < length (escapeHTML (filterProfanityPreservingUrls clean (sm_content data)))"
proof -
  let ?u = "toLowerCase (sm_username data)"
  let ?r = "sm_roomId data"
  let ?E = "createErrorResponse ''Message exceeds maximum length of 1000 characters'' 400"
  show vu: "USERNAME_REGEX_test ?u"
    using assms
    by (auto simp: handleSendMessage_def Let_def assertValidUsername_def createErrorResponse_def
          split: if_splits)
  show vr: "ROOM_ID_REGEX_test ?r"
    using assms vu
    by (auto simp: handleSendMessage_def Let_def assertValidUsername_def assertValidRoomId_def
          createErrorResponse_def split: if_splits)
  show ne: "sm_content data \<noteq> []"
    using assms vu vr
    by (auto simp: handleSendMessage_def Let_def assertValidUsername_def assertValidRoomId_def
          createErrorResponse_def split: if_splits)
  obtain b s1 where bs: "burstRateLimit now s ?r ?u = (b, s1)"
    by (cases "burstRateLimit now s ?r ?u")
  show b: "fst (burstRateLimit now s ?r ?u) = None"
  proof (cases b)
    case None
    with bs show ?thesis by simp
  next
    case (Some resp)
    with bs have "fst (burstRateLimit now s ?r ?u) = Some resp" by simp
    from burst_not_length[OF this] have "resp \<noteq> ?E" .
    moreover from assms vu vr ne bs Some have "resp = ?E"
      by (simp add: handleSendMessage_def Let_def assertValidUsername_def assertValidRoomId_def)
    ultimately show ?thesis by simp
  qed
  obtain e s2 where es: "ensureUserExists isProfane now s1 ?u = (e, s2)"
    by (cases "ensureUserExists isProfane now s1 ?u")
  show np: "\<not> isProfane ?u"
  proof (cases e)
    case (Inr ud)
    with es have "fst (ensureUserExists isProfane now s1 ?u) = Inr ud" by simp
    then show ?thesis by (rule ensureUserExists_Inr)
  next
    case (Inl x)
    from b bs have bn: "b = None" by simp
    from assms vu vr ne bs bn es Inl have False
      by (auto simp: handleSendMessage_def Let_def assertValidUsername_def assertValidRoomId_def
            createErrorResponse_def split: if_splits)
    then show ?thesis ..
  qed
  note f = handleSendMessage_passed(1)[of data isProfane now s clean mid, OF vu vr ne np b]
  show "MAX_MESSAGE_LENGTH < length (escapeHTML (filterProfanityPreservingUrls clean (sm_content data)))"
  proof (rule ccontr)
    assume n: "\<not> MAX_MESSAGE_LENGTH < length (escapeHTML (filterProfanityPreservingUrls clean (sm_content data)))"
    show False
    proof (cases "isDuplicate now s ?r ?u (escapeHTML (filterProfanityPreservingUrls clean (sm_content data)))")
      case True
      with f n have "fst (handleSendMessage clean isProfane now mid s data)
                       = createErrorResponse ''Duplicate message detected'' 400"
        by simp
      with assms show False by (simp add: createErrorResponse_def)
    next
      case False
      with f n have "status (fst (handleSendMessage clean isProfane now mid s data)) = 201"
        by simp
      with assms show False by (simp add: createErrorResponse_def)
    qed
  qed
qed

text \<open>
  Claim C9.  \<open>handleSendMessage\<close> answers 400 with the length error exactly when the
  request reaches the length check (well-formed username and room id, content not empty,
  the burst limiter lets it through, the username is not profane) and the sanitized
  content, after the profanity filter and the HTML escape, is longer than
  \<open>MAX_MESSAGE_LENGTH\<close>, which is 1000.  Two raw contents, both not empty, with the same
  sanitized content get the same answer and leave the same store.  A raw content of 201
  ampersands, which the filter leaves alone, has length at most 1000 and a sanitized length
  of 1005: it is refused with the length error and nothing is stored.
\<close>

theorem length_limit_on_sanitized:
   "(fst (handleSendMessage clean isProfane now mid s \<lparr>sm_roomId = r, sm_username = un, sm_content = c\<rparr>)
       = createErrorResponse ''Message exceeds maximum length of 1000 characters'' 400
     \<longleftrightarrow> USERNAME_REGEX_test (toLowerCase un) \<and> ROOM_ID_REGEX_test r \<and> c \<noteq> []
         \<and> \<not> isProfane (toLowerCase un)
         \<and> fst (burstRateLimit now s r (toLowerCase un)) = None
         \<and> MAX_MESSAGE_LENGTH < length (escapeHTML (filterProfanityPreservingUrls clean c)))
  \<and> MAX_MESSAGE_LENGTH = 1000
  \<and> (\<forall>c2. c \<noteq> [] \<and> c2 \<noteq> []
         \<and> escapeHTML (filterProfanityPreservingUrls clean c2) = escapeHTML (filterProfanityPreservingUrls clean c)
        \<longrightarrow> handleSendMessage clean isProfane now mid s \<lparr>sm_roomId = r, sm_username = un, sm_content = c2\<rparr>
            = handleSendMessage clean isProfane now mid s \<lparr>sm_roomId = r, sm_username = un, sm_content = c\<rparr>)
  \<and> (c = replicate 201 CHR ''&'' \<and> clean c = c \<longrightarrow>
        length c \<le> MAX_MESSAGE_LENGTH
      \<and> length (escapeHTML (filterProfanityPreservingUrls clean c)) = 1005
      \<and> (USERNAME_REGEX_test (toLowerCase un) \<and> ROOM_ID_REGEX_test r \<and> \<not> isProfane (toLowerCase un)
          \<and> fst (burstRateLimit now s r (toLowerCase un)) = None \<longrightarrow>
            fst (handleSendMessage clean isProfane now mid s \<lparr>sm_roomId = r, sm_username = un, sm_content = c\<rparr>)
              = createErrorResponse ''Message exceeds maximum length of 1000 characters'' 400
          \<and> chat_messages (snd (handleSendMessage clean isProfane now mid s
                                \<lparr>sm_roomId = r, sm_username = un, sm_content = c\<rparr>)) = chat_messages s))"
proof -
  let ?d = "\<lparr>sm_roomId = r, sm_username = un, sm_content = c\<rparr>"
  let ?san = "escapeHTML (filterProfanityPreservingUrls clean c)"
  let ?E = "createErrorResponse ''Message exceeds maximum length of 1000 characters'' 400"
  let ?reach = "USERNAME_REGEX_test (toLowerCase un) \<and> ROOM_ID_REGEX_test r \<and> c \<noteq> []
         \<and> \<not> isProfane (toLowerCase un)
         \<and> fst (burstRateLimit now s r (toLowerCase un)) = None"
  have pass: "?reach \<Longrightarrow> fst (handleSendMessage clean isProfane now mid s ?d) =
      (if MAX_MESSAGE_LENGTH < length ?san then ?E
       else if isDuplicate now s r (toLowerCase un) ?san
       then createErrorResponse ''Duplicate message detected'' 400
       else \<lparr>status = 201, body = MessageBody
               \<lparr>msg_id = mid, msg_roomId = r, msg_username = toLowerCase un,
                msg_content = ?san, msg_timestamp = now\<rparr>\<rparr>)"
    using handleSendMessage_passed(1)[of ?d isProfane now s clean mid] by simp
  have passm: "?reach \<Longrightarrow> chat_messages (snd (handleSendMessage clean isProfane now mid s ?d)) =
      (if MAX_MESSAGE_LENGTH < length ?san \<or> isDuplicate now s r (toLowerCase un) ?san
       then chat_messages s
       else kv_ltrim now
              (kv_lpush now (chat_messages s) (CHAT_MESSAGES_PREFIX @ r)
                 \<lparr>msg_id = mid, msg_roomId = r, msg_username = toLowerCase un,
                  msg_content = ?san, msg_timestamp = now\<rparr>)
              (CHAT_MESSAGES_PREFIX @ r) 0 99)"
    using handleSendMessage_passed(2)[of ?d isProfane now s clean mid] by simp
  have 1: "fst (handleSendMessage clean isProfane now mid s ?d) = ?E
     \<longleftrightarrow> ?reach \<and> MAX_MESSAGE_LENGTH < length ?san"
  proof
    assume a: "fst (handleSendMessage clean isProfane now mid s ?d) = ?E"
    from handleSendMessage_length_inv[OF a] show "?reach \<and> MAX_MESSAGE_LENGTH < length ?san"
      by simp
  next
    assume a: "?reach \<and> MAX_MESSAGE_LENGTH < length ?san"
    then have "?reach" by blast
    from pass[OF this] a show "fst (handleSendMessage clean isProfane now mid s ?d) = ?E" by simp
  qed
  have 2: "MAX_MESSAGE_LENGTH = 1000" by (simp add: MAX_MESSAGE_LENGTH_def)
  have 3: "\<forall>c2. c \<noteq> [] \<and> c2 \<noteq> []
         \<and> escapeHTML (filterProfanityPreservingUrls clean c2) = ?san
        \<longrightarrow> handleSendMessage clean isProfane now mid s \<lparr>sm_roomId = r, sm_username = un, sm_content = c2\<rparr>
            = handleSendMessage clean isProfane now mid s ?d"
    using handleSendMessage_content_only[of c _ clean isProfane now mid s r un] by blast
  have 4: "c = replicate 201 CHR ''&'' \<and> clean c = c \<longrightarrow>
        length c \<le> MAX_MESSAGE_LENGTH
      \<and> length ?san = 1005
      \<and> (USERNAME_REGEX_test (toLowerCase un) \<and> ROOM_ID_REGEX_test r \<and> \<not> isProfane (toLowerCase un)
          \<and> fst (burstRateLimit now s r (toLowerCase un)) = None \<longrightarrow>
            fst (handleSendMessage clean isProfane now mid s ?d) = ?E
          \<and> chat_messages (snd (handleSendMessage clean isProfane now mid s ?d)) = chat_messages s)"
  proof (intro impI)
    assume a: "c = replicate 201 CHR ''&'' \<and> clean c = c"
    then have c: "c = replicate 201 CHR ''&''" and cl: "clean c = c" by blast+
    have nh: "CHR ''h'' \<notin> set c" unfolding c by simp
    have ne: "c \<noteq> []" unfolding c by simp
    have f: "filterProfanityPreservingUrls clean c = c"
      using filterProfanity_no_url[OF nh, of clean] cl by simp
    have l1: "length c \<le> MAX_MESSAGE_LENGTH" unfolding c by (simp add: MAX_MESSAGE_LENGTH_def)
    have l2: "length ?san = 1005" unfolding f unfolding c by (simp add: length_escapeHTML_amp)
    then have big: "MAX_MESSAGE_LENGTH < length ?san" by (simp add: MAX_MESSAGE_LENGTH_def)
    have r: "USERNAME_REGEX_test (toLowerCase un) \<and> ROOM_ID_REGEX_test r \<and> \<not> isProfane (toLowerCase un)
          \<and> fst (burstRateLimit now s r (toLowerCase un)) = None \<longrightarrow>
            fst (handleSendMessage clean isProfane now mid s ?d) = ?E
          \<and> chat_messages (snd (handleSendMessage clean isProfane now mid s ?d)) = chat_messages s"
    proof
      assume h: "USERNAME_REGEX_test (toLowerCase un) \<and> ROOM_ID_REGEX_test r \<and> \<not> isProfane (toLowerCase un)
          \<and> fst (burstRateLimit now s r (toLowerCase un)) = None"
      with ne have reach: "?reach" by blast
      from pass[OF reach] passm[OF reach] big
      show "fst (handleSendMessage clean isProfane now mid s ?d) = ?E
          \<and> chat_messages (snd (handleSendMessage clean isProfane now mid s ?d)) = chat_messages s"
        by simp
    qed
    from l1 l2 r show "length c \<le> MAX_MESSAGE_LENGTH
      \<and> length ?san = 1005
      \<and> (USERNAME_REGEX_test (toLowerCase un) \<and> ROOM_ID_REGEX_test r \<and> \<not> isProfane (toLowerCase un)
          \<and> fst (burstRateLimit now s r (toLowerCase un)) = None \<longrightarrow>
            fst (handleSendMessage clean isProfane now mid s ?d) = ?E
          \<and> chat_messages (snd (handleSendMessage clean isProfane now mid s ?d)) = chat_messages s)"
      by blast
  qed
  from 1 2 3 4 show ?thesis by blast
qed

theorem length_limit_on_sanitized_witness:
  "length (replicate 201 CHR ''&'') \<le> MAX_MESSAGE_LENGTH
 \<and> length (escapeHTML (filterProfanityPreservingUrls (\<lambda>x. x) (replicate 201 CHR ''&''))) = 1005
 \<and> fst (handleSendMessage (\<lambda>x. x) (\<lambda>x. False) 5000 ''m1'' msgStore
          \<lparr>sm_roomId = ''r1'', sm_username = ''alice'', sm_content = replicate 201 CHR ''&''\<rparr>)
     = createErrorResponse ''Message exceeds maximum length of 1000 characters'' 400
 \<and> chat_messages (snd (handleSendMessage (\<lambda>x. x) (\<lambda>x. False) 5000 ''m1'' msgStore
          \<lparr>sm_roomId = ''r1'', sm_username = ''alice'', sm_content = replicate 201 CHR ''&''\<rparr>))
     = chat_messages msgStore"
proof -
  have b: "fst (burstRateLimit 5000 msgStore ''r1'' (toLowerCase ''alice'')) = None"
    using burstRateLimit_private[OF msgStore_room room2_private] by simp
  have vu: "USERNAME_REGEX_test (toLowerCase ''alice'')" by (simp add: lower_names valid_alice_lc)
  have np: "\<not> (\<lambda>x. False) (toLowerCase ''alice'')" by simp
  note t = length_limit_on_sanitized[where isProfane="\<lambda>x. False" and clean="\<lambda>x. x" and mid="''m1''"
         and now = 5000 and s = msgStore and r = "''r1''" and un = "''alice''"]
  from t[of "replicate 201 CHR ''&''"] vu valid_rooms(1) np b
  have a: "length (replicate 201 CHR ''&'') \<le> MAX_MESSAGE_LENGTH
      \<and> length (escapeHTML (filterProfanityPreservingUrls (\<lambda>x. x) (replicate 201 CHR ''&''))) = 1005
      \<and> fst (handleSendMessage (\<lambda>x. x) (\<lambda>x. False) 5000 ''m1'' msgStore
          \<lparr>sm_roomId = ''r1'', sm_username = ''alice'', sm_content = replicate 201 CHR ''&''\<rparr>)
          = createErrorResponse ''Message exceeds maximum length of 1000 characters'' 400
      \<and> chat_messages (snd (handleSendMessage (\<lambda>x. x) (\<lambda>x. False) 5000 ''m1'' msgStore
          \<lparr>sm_roomId = ''r1'', sm_username = ''alice'', sm_content = replicate 201 CHR ''&''\<rparr>))
          = chat_messages msgStore"
    by blast
  from a show ?thesis by blast
qed

lemma burst_keys_distinct:
  "shortKey r u \<noteq> longKey r u" "shortKey r u \<noteq> lastKey r u" "longKey r u \<noteq> lastKey r u"
  "longKey r u \<noteq> shortKey r u" "lastKey r u \<noteq> shortKey r u" "lastKey r u \<noteq> longKey r u"
  by (simp_all add: shortKey_def longKey_def lastKey_def)

lemma kv_get_expire_same_time:
  "0 < sec \<Longrightarrow> kv_get now (kv_expire now m k sec) k' = kv_get now m k'"
  by (auto simp: kv_get_expire)

lemma burstRateLimit_public:
  assumes room: "kv_get now (chat_room s) (CHAT_ROOM_PREFIX @ r) = Some roomObj"
    and pub: "room_type roomObj = None \<or> room_type roomObj = Some Public"
  shows "fst (burstRateLimit now s r u) =
     (if CHAT_BURST_SHORT_LIMIT < nextCount now s (shortKey r u)
        then Some (createErrorResponse ''You're sending messages too quickly. Please slow down.'' 429)
      else if CHAT_BURST_LONG_LIMIT < nextCount now s (longKey r u)
        then Some (createErrorResponse ''Too many messages in a short period. Please wait a moment.'' 429)
      else if tooSoon now s (lastKey r u)
        then Some (createErrorResponse ''Please wait a moment before sending another message.'' 429)
      else None)"
proof -
  let ?sk = "shortKey r u" and ?lk = "longKey r u" and ?tk = "lastKey r u"
  define sc where "sc = fst (kv_incr now (rl s) ?sk)"
  define m2 where "m2 = (if sc = 1 then kv_expire now (snd (kv_incr now (rl s) ?sk)) ?sk
                                 CHAT_BURST_SHORT_WINDOW_SECONDS
                         else snd (kv_incr now (rl s) ?sk))"
  define lc where "lc = fst (kv_incr now m2 ?lk)"
  define m4 where "m4 = (if lc = 1 then kv_expire now (snd (kv_incr now m2 ?lk)) ?lk
                                 CHAT_BURST_LONG_WINDOW_SECONDS
                         else snd (kv_incr now m2 ?lk))"
  have sc: "sc = nextCount now s ?sk" by (simp add: sc_def kv_incr_fst nextCount_def)
  have g2: "\<And>k. k \<noteq> ?sk \<Longrightarrow> kv_get now m2 k = kv_get now (rl s) k"
    by (simp add: m2_def kv_get_expire_same_time CHAT_BURST_SHORT_WINDOW_SECONDS_def kv_get_incr)
  have e2: "kv_get now m2 ?lk = kv_get now (rl s) ?lk"
    by (rule g2) (rule burst_keys_distinct)
  have lc: "lc = nextCount now s ?lk"
    by (simp add: lc_def kv_incr_fst nextCount_def e2)
  have g4: "\<And>k. k \<noteq> ?sk \<Longrightarrow> k \<noteq> ?lk \<Longrightarrow> kv_get now m4 k = kv_get now (rl s) k"
    using g2 by (simp add: m4_def kv_get_expire_same_time CHAT_BURST_LONG_WINDOW_SECONDS_def kv_get_incr)
  have last: "kv_get now m4 ?tk = kv_get now (rl s) ?tk"
    by (rule g4) (rule burst_keys_distinct)+
  have unf: "fst (burstRateLimit now s r u) =
     (if CHAT_BURST_SHORT_LIMIT < sc
        then Some (createErrorResponse ''You're sending messages too quickly. Please slow down.'' 429)
      else if CHAT_BURST_LONG_LIMIT < lc
        then Some (createErrorResponse ''Too many messages in a short period. Please wait a moment.'' 429)
      else if (case kv_get now m4 ?tk of
                 Some l \<Rightarrow> l \<noteq> 0 \<and> now div 1000 - l < CHAT_MIN_INTERVAL_SECONDS | None \<Rightarrow> False)
        then Some (createErrorResponse ''Please wait a moment before sending another message.'' 429)
      else None)"
    using room pub
    unfolding sc_def m2_def lc_def m4_def
    by (auto simp: burstRateLimit_def Let_def split_beta shortKey_def longKey_def lastKey_def)
  show ?thesis
    unfolding unf sc lc last tooSoon_def ..
qed

lemma map_of_kv_incr_other: "k' \<noteq> k \<Longrightarrow> map_of (snd (kv_incr now m k)) k' = map_of m k'"
  by (simp add: kv_incr_def update_conv' split: option.splits)

lemma map_of_kv_incr_fresh:
  "kv_get now m k = None \<Longrightarrow> map_of (snd (kv_incr now m k)) k = Some (1, None)"
  by (auto simp: kv_incr_def kv_get_def update_conv' split: option.splits if_splits)

lemma kv_get_live: "map_of m k = Some (n, Some e) \<Longrightarrow> now < e \<Longrightarrow> kv_get now m k = Some n"
  by (simp add: kv_get_def live_def)

lemma burst_short_entry:
  assumes room: "kv_get now (chat_room s) (CHAT_ROOM_PREFIX @ r) = Some roomObj"
    and pub: "room_type roomObj = None \<or> room_type roomObj = Some Public"
  shows "kv_get now (rl s) (shortKey r u) = None \<Longrightarrow>
           map_of (rl (snd (burstRateLimit now s r u))) (shortKey r u)
             = Some (1, Some (now + CHAT_BURST_SHORT_WINDOW_SECONDS * 1000))"
    and "map_of (rl s) (shortKey r u) = Some (n, Some e) \<Longrightarrow> now < e \<Longrightarrow> n \<noteq> 0 \<Longrightarrow>
           map_of (rl (snd (burstRateLimit now s r u))) (shortKey r u) = Some (n + 1, Some e)"
proof -
  let ?sk = "shortKey r u" and ?lk = "longKey r u" and ?tk = "lastKey r u"
  define sc where "sc = fst (kv_incr now (rl s) ?sk)"
  define m2 where "m2 = (if sc = 1 then kv_expire now (snd (kv_incr now (rl s) ?sk)) ?sk
                                 CHAT_BURST_SHORT_WINDOW_SECONDS
                         else snd (kv_incr now (rl s) ?sk))"
  define lc where "lc = fst (kv_incr now m2 ?lk)"
  define m4 where "m4 = (if lc = 1 then kv_expire now (snd (kv_incr now m2 ?lk)) ?lk
                                 CHAT_BURST_LONG_WINDOW_SECONDS
                         else snd (kv_incr now m2 ?lk))"
  have m4sk: "map_of m4 ?sk = map_of m2 ?sk"
    using burst_keys_distinct(1)[of r u]
    by (simp add: m4_def map_of_kv_expire_other map_of_kv_incr_other)
  have cases: "rl (snd (burstRateLimit now s r u)) = m2
             \<or> rl (snd (burstRateLimit now s r u)) = m4
             \<or> rl (snd (burstRateLimit now s r u))
                  = kv_setex now m4 ?tk (now div 1000) CHAT_BURST_LONG_WINDOW_SECONDS"
    using room pub
    unfolding sc_def m2_def lc_def m4_def
    by (auto simp: burstRateLimit_def Let_def split_beta shortKey_def longKey_def lastKey_def)
  have after: "map_of (rl (snd (burstRateLimit now s r u))) ?sk = map_of m2 ?sk"
    using cases m4sk burst_keys_distinct(2)[of r u] by (auto simp: map_of_kv_setex)
  show "map_of (rl (snd (burstRateLimit now s r u))) ?sk
             = Some (1, Some (now + CHAT_BURST_SHORT_WINDOW_SECONDS * 1000))"
    if f: "kv_get now (rl s) ?sk = None"
  proof -
    have "sc = 1" using f by (simp add: sc_def kv_incr_fst)
    moreover have "kv_get now (snd (kv_incr now (rl s) ?sk)) ?sk = Some 1"
      using f by (simp add: kv_get_incr kv_incr_fst)
    ultimately have "map_of m2 ?sk = Some (1, Some (now + CHAT_BURST_SHORT_WINDOW_SECONDS * 1000))"
      by (simp add: m2_def map_of_kv_expire_same)
    with after show ?thesis by simp
  qed
  show "map_of (rl (snd (burstRateLimit now s r u))) ?sk = Some (n + 1, Some e)"
    if e: "map_of (rl s) ?sk = Some (n, Some e)" and l: "now < e" and n0: "n \<noteq> 0"
  proof -
    have g: "kv_get now (rl s) ?sk = Some n" using e l by (rule kv_get_live)
    then have "sc = n + 1" by (simp add: sc_def kv_incr_fst)
    with n0 have ne1: "sc \<noteq> 1" by simp
    have "map_of (snd (kv_incr now (rl s) ?sk)) ?sk = Some (n + 1, Some e)"
      using e l by (simp add: kv_incr_def live_def update_conv')
    with ne1 have "map_of m2 ?sk = Some (n + 1, Some e)" by (simp add: m2_def)
    with after show ?thesis by simp
  qed
qed

lemma ensureUserExists_frame:
  "chat_room (snd (ensureUserExists isProfane now s u)) = chat_room s"
  "chat_messages (snd (ensureUserExists isProfane now s u)) = chat_messages s"
  "rl (snd (ensureUserExists isProfane now s u)) = rl s"
  by (simp_all add: ensureUserExists_def Let_def split_beta split: option.splits)

lemma handleSendMessage_limited:
  assumes vu: "USERNAME_REGEX_test (toLowerCase un)"
    and vr: "ROOM_ID_REGEX_test r"
    and ne: "c \<noteq> []"
  shows "rl (snd (handleSendMessage clean isProfane now mid s \<lparr>sm_roomId = r, sm_username = un, sm_content = c\<rparr>))
           = rl (snd (burstRateLimit now s r (toLowerCase un)))"
    and "chat_room (snd (handleSendMessage clean isProfane now mid s \<lparr>sm_roomId = r, sm_username = un, sm_content = c\<rparr>))
           = chat_room s"
    and "fst (burstRateLimit now s r (toLowerCase un)) = Some resp \<Longrightarrow>
         fst (handleSendMessage clean isProfane now mid s \<lparr>sm_roomId = r, sm_username = un, sm_content = c\<rparr>) = resp"
proof -
  let ?u = "toLowerCase un"
  let ?d = "\<lparr>sm_roomId = r, sm_username = un, sm_content = c\<rparr>"
  obtain b s1 where bs: "burstRateLimit now s r ?u = (b, s1)"
    by (cases "burstRateLimit now s r ?u")
  have s1f: "chat_room s1 = chat_room s"
    using burstRateLimit_frame(1)[of now s r ?u] bs by simp
  obtain e s2 where es: "ensureUserExists isProfane now s1 ?u = (e, s2)"
    by (cases "ensureUserExists isProfane now s1 ?u")
  have s2f: "chat_room s2 = chat_room s1" "rl s2 = rl s1"
    using ensureUserExists_frame(1,3)[of isProfane now s1 ?u] es by simp_all
  have both: "rl (snd (handleSendMessage clean isProfane now mid s ?d)) = rl s1
            \<and> chat_room (snd (handleSendMessage clean isProfane now mid s ?d)) = chat_room s"
  proof (cases b)
    case (Some resp)
    with vu vr ne bs s1f show ?thesis
      by (simp add: handleSendMessage_def Let_def assertValidUsername_def assertValidRoomId_def)
  next
    case None
    show ?thesis
    proof (cases e)
      case (Inl x)
      with None vu vr ne bs s1f es s2f show ?thesis
        by (simp add: handleSendMessage_def Let_def assertValidUsername_def assertValidRoomId_def)
    next
      case (Inr ud)
      with None vu vr ne bs s1f es s2f show ?thesis
        by (simp add: handleSendMessage_def Let_def assertValidUsername_def assertValidRoomId_def
              refreshRoomPresence_frame)
    qed
  qed
  from both bs show "rl (snd (handleSendMessage clean isProfane now mid s ?d))
           = rl (snd (burstRateLimit now s r ?u))" by simp
  from both show "chat_room (snd (handleSendMessage clean isProfane now mid s ?d)) = chat_room s" by simp
  show "fst (handleSendMessage clean isProfane now mid s ?d) = resp"
    if "fst (burstRateLimit now s r ?u) = Some resp"
    using that vu vr ne bs
    by (simp add: handleSendMessage_def Let_def assertValidUsername_def assertValidRoomId_def)
qed

lemma kv_get_no_expiry: "map_of m k = Some (v, None) \<Longrightarrow> kv_get now m k = Some v"
  by (simp add: kv_get_def live_def)

lemma public_burst:
  assumes vu: "USERNAME_REGEX_test (toLowerCase un)"
    and vr: "ROOM_ID_REGEX_test r"
    and ne: "c1 \<noteq> []" "c2 \<noteq> []" "c3 \<noteq> []" "c4 \<noteq> []"
    and room: "map_of (chat_room s) (CHAT_ROOM_PREFIX @ r) = Some (roomObj, None)"
    and pub: "room_type roomObj = None \<or> room_type roomObj = Some Public"
    and fresh: "kv_get t1 (rl s) (shortKey r (toLowerCase un)) = None"
    and times: "t2 < t1 + 10000" "t3 < t1 + 10000" "t4 < t1 + 10000"
  shows "fst (handleSendMessage clean isProfane t4 m4
           (snd (handleSendMessage clean isProfane t3 m3
              (snd (handleSendMessage clean isProfane t2 m2
                 (snd (handleSendMessage clean isProfane t1 m1 s
                    \<lparr>sm_roomId = r, sm_username = un, sm_content = c1\<rparr>))
                 \<lparr>sm_roomId = r, sm_username = un, sm_content = c2\<rparr>))
              \<lparr>sm_roomId = r, sm_username = un, sm_content = c3\<rparr>))
           \<lparr>sm_roomId = r, sm_username = un, sm_content = c4\<rparr>)
         = createErrorResponse ''You're sending messages too quickly. Please slow down.'' 429"
proof -
  let ?u = "toLowerCase un"
  let ?sk = "shortKey r ?u"
  let ?k = "CHAT_ROOM_PREFIX @ r"
  let ?s1 = "snd (handleSendMessage clean isProfane t1 m1 s \<lparr>sm_roomId = r, sm_username = un, sm_content = c1\<rparr>)"
  let ?s2 = "snd (handleSendMessage clean isProfane t2 m2 ?s1 \<lparr>sm_roomId = r, sm_username = un, sm_content = c2\<rparr>)"
  let ?s3 = "snd (handleSendMessage clean isProfane t3 m3 ?s2 \<lparr>sm_roomId = r, sm_username = un, sm_content = c3\<rparr>)"
  let ?e = "t1 + 10000"
  have r0: "\<And>t. kv_get t (chat_room s) ?k = Some roomObj" using room by (rule kv_get_no_expiry)
  have c1: "chat_room ?s1 = chat_room s" using handleSendMessage_limited(2)[OF vu vr ne(1)] .
  have c2: "chat_room ?s2 = chat_room s" using handleSendMessage_limited(2)[OF vu vr ne(2)] c1 by simp
  have c3: "chat_room ?s3 = chat_room s" using handleSendMessage_limited(2)[OF vu vr ne(3)] c2 by simp
  have e1: "map_of (rl ?s1) ?sk = Some (1, Some ?e)"
    using burst_short_entry(1)[OF r0 pub fresh]
    by (simp add: handleSendMessage_limited(1)[OF vu vr ne(1)] CHAT_BURST_SHORT_WINDOW_SECONDS_def)
  have r1: "kv_get t2 (chat_room ?s1) ?k = Some roomObj" using r0 c1 by simp
  have e2: "map_of (rl ?s2) ?sk = Some (2, Some ?e)"
    using burst_short_entry(2)[OF r1 pub e1 times(1)]
    by (simp add: handleSendMessage_limited(1)[OF vu vr ne(2)])
  have r2: "kv_get t3 (chat_room ?s2) ?k = Some roomObj" using r0 c2 by simp
  have e3: "map_of (rl ?s3) ?sk = Some (3, Some ?e)"
    using burst_short_entry(2)[OF r2 pub e2 times(2)]
    by (simp add: handleSendMessage_limited(1)[OF vu vr ne(3)])
  have r3: "kv_get t4 (chat_room ?s3) ?k = Some roomObj" using r0 c3 by simp
  have "nextCount t4 ?s3 ?sk = 4"
    using kv_get_live[OF e3 times(3)] by (simp add: nextCount_def)
  then have "fst (burstRateLimit t4 ?s3 r ?u)
      = Some (createErrorResponse ''You're sending messages too quickly. Please slow down.'' 429)"
    by (simp add: burstRateLimit_public[OF r3 pub] CHAT_BURST_SHORT_LIMIT_def)
  from handleSendMessage_limited(3)[OF vu vr ne(4) this] show ?thesis .
qed

lemma kv_lrange_after_push_any:
  "kv_lrange now' (kv_ltrim now (kv_lpush now m k v) k 0 99) k 0 0 = [v]
 \<or> kv_lrange now' (kv_ltrim now (kv_lpush now m k v) k 0 99) k 0 0 = []"
proof (cases "map_of m k")
  case None
  then show ?thesis
    by (simp add: kv_lrange_def kv_ltrim_def kv_lpush_def kv_get_def update_conv' live_def)
next
  case (Some e)
  show ?thesis
  proof (cases "live now e")
    case True
    with Some show ?thesis
      by (auto simp: kv_lrange_def kv_ltrim_def kv_lpush_def kv_get_def update_conv' live_def
               split: option.splits)
  next
    case False
    with Some show ?thesis
      by (simp add: kv_lrange_def kv_ltrim_def kv_lpush_def kv_get_def update_conv' live_def)
  qed
qed

lemma private_send_ok:
  assumes vu: "USERNAME_REGEX_test (toLowerCase un)"
    and vr: "ROOM_ID_REGEX_test r"
    and np: "\<not> isProfane (toLowerCase un)"
    and ne: "c \<noteq> []"
    and len: "length (escapeHTML (filterProfanityPreservingUrls clean c)) \<le> MAX_MESSAGE_LENGTH"
    and room: "map_of (chat_room s) (CHAT_ROOM_PREFIX @ r) = Some (roomObj, None)"
    and priv: "room_type roomObj = Some Private"
    and nd: "\<not> isDuplicate now s r (toLowerCase un) (escapeHTML (filterProfanityPreservingUrls clean c))"
  shows "status (fst (handleSendMessage clean isProfane now mid s \<lparr>sm_roomId = r, sm_username = un, sm_content = c\<rparr>)) = 201"
    and "chat_room (snd (handleSendMessage clean isProfane now mid s \<lparr>sm_roomId = r, sm_username = un, sm_content = c\<rparr>)) = chat_room s"
    and "rl (snd (handleSendMessage clean isProfane now mid s \<lparr>sm_roomId = r, sm_username = un, sm_content = c\<rparr>)) = rl s"
    and "isDuplicate now' (snd (handleSendMessage clean isProfane now mid s \<lparr>sm_roomId = r, sm_username = un, sm_content = c\<rparr>))
            r (toLowerCase un) c' \<Longrightarrow> c' = escapeHTML (filterProfanityPreservingUrls clean c)"
proof -
  let ?u = "toLowerCase un"
  let ?d = "\<lparr>sm_roomId = r, sm_username = un, sm_content = c\<rparr>"
  let ?san = "escapeHTML (filterProfanityPreservingUrls clean c)"
  have r0: "kv_get now (chat_room s) (CHAT_ROOM_PREFIX @ r) = Some roomObj"
    using room by (rule kv_get_no_expiry)
  have b: "burstRateLimit now s r ?u = (None, s)" using burstRateLimit_private[OF r0 priv] .
  have p: "USERNAME_REGEX_test (toLowerCase (sm_username ?d))" "ROOM_ID_REGEX_test (sm_roomId ?d)"
      "sm_content ?d \<noteq> []" "\<not> isProfane (toLowerCase (sm_username ?d))"
      "fst (burstRateLimit now s (sm_roomId ?d) (toLowerCase (sm_username ?d))) = None"
    using vu vr ne np b by simp_all
  note f = handleSendMessage_passed(1)[of ?d isProfane now s clean mid, OF p]
  note m = handleSendMessage_passed(2)[of ?d isProfane now s clean mid, OF p]
  show "status (fst (handleSendMessage clean isProfane now mid s ?d)) = 201"
    using f len nd by simp
  show "chat_room (snd (handleSendMessage clean isProfane now mid s ?d)) = chat_room s"
    using handleSendMessage_limited(2)[OF vu vr ne] .
  show "rl (snd (handleSendMessage clean isProfane now mid s ?d)) = rl s"
    using handleSendMessage_limited(1)[OF vu vr ne, of clean isProfane now mid s] b by simp
  show "c' = ?san"
    if d: "isDuplicate now' (snd (handleSendMessage clean isProfane now mid s ?d)) r ?u c'"
  proof -
    from m len nd have cm: "chat_messages (snd (handleSendMessage clean isProfane now mid s ?d))
        = kv_ltrim now (kv_lpush now (chat_messages s) (CHAT_MESSAGES_PREFIX @ r)
             \<lparr>msg_id = mid, msg_roomId = r, msg_username = ?u, msg_content = ?san, msg_timestamp = now\<rparr>)
             (CHAT_MESSAGES_PREFIX @ r) 0 99"
      by simp
    from d kv_lrange_after_push_any[of now' now "chat_messages s" "CHAT_MESSAGES_PREFIX @ r"
          "\<lparr>msg_id = mid, msg_roomId = r, msg_username = ?u, msg_content = ?san, msg_timestamp = now\<rparr>"]
    show ?thesis by (auto simp: isDuplicate_def cm)
  qed
qed

lemma private_burst:
  assumes vu: "USERNAME_REGEX_test (toLowerCase un)"
    and vr: "ROOM_ID_REGEX_test r"
    and np: "\<not> isProfane (toLowerCase un)"
    and ne: "c1 \<noteq> []" "c2 \<noteq> []" "c3 \<noteq> []" "c4 \<noteq> []"
    and len: "length (escapeHTML (filterProfanityPreservingUrls clean c1)) \<le> MAX_MESSAGE_LENGTH"
             "length (escapeHTML (filterProfanityPreservingUrls clean c2)) \<le> MAX_MESSAGE_LENGTH"
             "length (escapeHTML (filterProfanityPreservingUrls clean c3)) \<le> MAX_MESSAGE_LENGTH"
             "length (escapeHTML (filterProfanityPreservingUrls clean c4)) \<le> MAX_MESSAGE_LENGTH"
    and room: "map_of (chat_room s) (CHAT_ROOM_PREFIX @ r) = Some (roomObj, None)"
    and priv: "room_type roomObj = Some Private"
    and nd: "\<not> isDuplicate t1 s r (toLowerCase un) (escapeHTML (filterProfanityPreservingUrls clean c1))"
    and diff: "escapeHTML (filterProfanityPreservingUrls clean c2) \<noteq> escapeHTML (filterProfanityPreservingUrls clean c1)"
              "escapeHTML (filterProfanityPreservingUrls clean c3) \<noteq> escapeHTML (filterProfanityPreservingUrls clean c2)"
              "escapeHTML (filterProfanityPreservingUrls clean c4) \<noteq> escapeHTML (filterProfanityPreservingUrls clean c3)"
  shows "status (fst (handleSendMessage clean isProfane t1 m1 s
                    \<lparr>sm_roomId = r, sm_username = un, sm_content = c1\<rparr>)) = 201
       \<and> status (fst (handleSendMessage clean isProfane t2 m2
                 (snd (handleSendMessage clean isProfane t1 m1 s
                    \<lparr>sm_roomId = r, sm_username = un, sm_content = c1\<rparr>))
                 \<lparr>sm_roomId = r, sm_username = un, sm_content = c2\<rparr>)) = 201
       \<and> status (fst (handleSendMessage clean isProfane t3 m3
              (snd (handleSendMessage clean isProfane t2 m2
                 (snd (handleSendMessage clean isProfane t1 m1 s
                    \<lparr>sm_roomId = r, sm_username = un, sm_content = c1\<rparr>))
                 \<lparr>sm_roomId = r, sm_username = un, sm_content = c2\<rparr>))
              \<lparr>sm_roomId = r, sm_username = un, sm_content = c3\<rparr>)) = 201
       \<and> status (fst (handleSendMessage clean isProfane t4 m4
           (snd (handleSendMessage clean isProfane t3 m3
              (snd (handleSendMessage clean isProfane t2 m2
                 (snd (handleSendMessage clean isProfane t1 m1 s
                    \<lparr>sm_roomId = r, sm_username = un, sm_content = c1\<rparr>))
                 \<lparr>sm_roomId = r, sm_username = un, sm_content = c2\<rparr>))
              \<lparr>sm_roomId = r, sm_username = un, sm_content = c3\<rparr>))
           \<lparr>sm_roomId = r, sm_username = un, sm_content = c4\<rparr>)) = 201
       \<and> rl (snd (handleSendMessage clean isProfane t4 m4
           (snd (handleSendMessage clean isProfane t3 m3
              (snd (handleSendMessage clean isProfane t2 m2
                 (snd (handleSendMessage clean isProfane t1 m1 s
                    \<lparr>sm_roomId = r, sm_username = un, sm_content = c1\<rparr>))
                 \<lparr>sm_roomId = r, sm_username = un, sm_content = c2\<rparr>))
              \<lparr>sm_roomId = r, sm_username = un, sm_content = c3\<rparr>))
           \<lparr>sm_roomId = r, sm_username = un, sm_content = c4\<rparr>)) = rl s"
proof -
  let ?u = "toLowerCase un"
  let ?k = "CHAT_ROOM_PREFIX @ r"
  let ?s1 = "snd (handleSendMessage clean isProfane t1 m1 s \<lparr>sm_roomId = r, sm_username = un, sm_content = c1\<rparr>)"
  let ?s2 = "snd (handleSendMessage clean isProfane t2 m2 ?s1 \<lparr>sm_roomId = r, sm_username = un, sm_content = c2\<rparr>)"
  let ?s3 = "snd (handleSendMessage clean isProfane t3 m3 ?s2 \<lparr>sm_roomId = r, sm_username = un, sm_content = c3\<rparr>)"
  let ?s4 = "snd (handleSendMessage clean isProfane t4 m4 ?s3 \<lparr>sm_roomId = r, sm_username = un, sm_content = c4\<rparr>)"
  note a1 = private_send_ok[where isProfane=isProfane and clean=clean and mid=m1 and now=t1,
               OF vu vr np ne(1) len(1) room priv nd]
  have room1: "map_of (chat_room ?s1) ?k = Some (roomObj, None)" using a1(2) room by simp
  have nd2: "\<not> isDuplicate t2 ?s1 r ?u (escapeHTML (filterProfanityPreservingUrls clean c2))"
    using a1(4)[of t2 "escapeHTML (filterProfanityPreservingUrls clean c2)"] diff(1) by blast
  note a2 = private_send_ok[where isProfane=isProfane and clean=clean and mid=m2 and now=t2,
               OF vu vr np ne(2) len(2) room1 priv nd2]
  have room2: "map_of (chat_room ?s2) ?k = Some (roomObj, None)" using a2(2) room1 by simp
  have nd3: "\<not> isDuplicate t3 ?s2 r ?u (escapeHTML (filterProfanityPreservingUrls clean c3))"
    using a2(4)[of t3 "escapeHTML (filterProfanityPreservingUrls clean c3)"] diff(2) by blast
  note a3 = private_send_ok[where isProfane=isProfane and clean=clean and mid=m3 and now=t3,
               OF vu vr np ne(3) len(3) room2 priv nd3]
  have room3: "map_of (chat_room ?s3) ?k = Some (roomObj, None)" using a3(2) room2 by simp
  have nd4: "\<not> isDuplicate t4 ?s3 r ?u (escapeHTML (filterProfanityPreservingUrls clean c4))"
    using a3(4)[of t4 "escapeHTML (filterProfanityPreservingUrls clean c4)"] diff(3) by blast
  note a4 = private_send_ok[where isProfane=isProfane and clean=clean and mid=m4 and now=t4,
               OF vu vr np ne(4) len(4) room3 priv nd4]
  have "rl ?s4 = rl s" using a1(3) a2(3) a3(3) a4(3) by simp
  with a1(1) a2(1) a3(1) a4(1) show ?thesis by blast
qed

lemma handleSendMessage_limited_msgs:
  assumes vu: "USERNAME_REGEX_test (toLowerCase un)"
    and vr: "ROOM_ID_REGEX_test r"
    and ne: "c \<noteq> []"
    and b: "fst (burstRateLimit now s r (toLowerCase un)) = Some resp"
  shows "chat_messages (snd (handleSendMessage clean isProfane now mid s \<lparr>sm_roomId = r, sm_username = un, sm_content = c\<rparr>))
           = chat_messages s"
proof -
  obtain s1 where bs: "burstRateLimit now s r (toLowerCase un) = (Some resp, s1)"
    using b by (cases "burstRateLimit now s r (toLowerCase un)") auto
  have "chat_messages s1 = chat_messages s"
    using burstRateLimit_frame(2)[of now s r "toLowerCase un"] bs by simp
  with vu vr ne bs show ?thesis
    by (simp add: handleSendMessage_def Let_def assertValidUsername_def assertValidRoomId_def)
qed

theorem burst_limiter:
  assumes vu: "USERNAME_REGEX_test (toLowerCase un)"
    and vr: "ROOM_ID_REGEX_test r"
    and ne: "c1 \<noteq> []" "c2 \<noteq> []" "c3 \<noteq> []" "c4 \<noteq> []"
    and room: "map_of (chat_room s) (CHAT_ROOM_PREFIX @ r) = Some (roomObj, None)"
  shows
   "CHAT_BURST_SHORT_LIMIT = 3 \<and> CHAT_BURST_SHORT_WINDOW_SECONDS = 10
  \<and> CHAT_BURST_LONG_LIMIT = 20 \<and> CHAT_BURST_LONG_WINDOW_SECONDS = 60
  \<and> CHAT_MIN_INTERVAL_SECONDS = 2
  \<and> (room_type roomObj = None \<or> room_type roomObj = Some Public \<longrightarrow>
       fst (burstRateLimit t1 s r (toLowerCase un)) =
         (if CHAT_BURST_SHORT_LIMIT < nextCount t1 s (shortKey r (toLowerCase un))
            then Some (createErrorResponse ''You're sending messages too quickly. Please slow down.'' 429)
          else if CHAT_BURST_LONG_LIMIT < nextCount t1 s (longKey r (toLowerCase un))
            then Some (createErrorResponse ''Too many messages in a short period. Please wait a moment.'' 429)
          else if tooSoon t1 s (lastKey r (toLowerCase un))
            then Some (createErrorResponse ''Please wait a moment before sending another message.'' 429)
          else None)
     \<and> (\<forall>resp. fst (burstRateLimit t1 s r (toLowerCase un)) = Some resp \<longrightarrow>
           fst (handleSendMessage clean isProfane t1 m1 s \<lparr>sm_roomId = r, sm_username = un, sm_content = c1\<rparr>) = resp
         \<and> chat_messages (snd (handleSendMessage clean isProfane t1 m1 s
                \<lparr>sm_roomId = r, sm_username = un, sm_content = c1\<rparr>)) = chat_messages s)
     \<and> (kv_get t1 (rl s) (shortKey r (toLowerCase un)) = None
          \<and> t2 < t1 + CHAT_BURST_SHORT_WINDOW_SECONDS * 1000
          \<and> t3 < t1 + CHAT_BURST_SHORT_WINDOW_SECONDS * 1000
          \<and> t4 < t1 + CHAT_BURST_SHORT_WINDOW_SECONDS * 1000 \<longrightarrow>
          fst (handleSendMessage clean isProfane t4 m4
           (snd (handleSendMessage clean isProfane t3 m3
              (snd (handleSendMessage clean isProfane t2 m2
                 (snd (handleSendMessage clean isProfane t1 m1 s
                    \<lparr>sm_roomId = r, sm_username = un, sm_content = c1\<rparr>))
                 \<lparr>sm_roomId = r, sm_username = un, sm_content = c2\<rparr>))
              \<lparr>sm_roomId = r, sm_username = un, sm_content = c3\<rparr>))
           \<lparr>sm_roomId = r, sm_username = un, sm_content = c4\<rparr>)
         = createErrorResponse ''You're sending messages too quickly. Please slow down.'' 429))
  \<and> (room_type roomObj = Some Private
      \<and> \<not> isProfane (toLowerCase un)
      \<and> length (escapeHTML (filterProfanityPreservingUrls clean c1)) \<le> MAX_MESSAGE_LENGTH
      \<and> length (escapeHTML (filterProfanityPreservingUrls clean c2)) \<le> MAX_MESSAGE_LENGTH
      \<and> length (escapeHTML (filterProfanityPreservingUrls clean c3)) \<le> MAX_MESSAGE_LENGTH
      \<and> length (escapeHTML (filterProfanityPreservingUrls clean c4)) \<le> MAX_MESSAGE_LENGTH
      \<and> \<not> isDuplicate t1 s r (toLowerCase un) (escapeHTML (filterProfanityPreservingUrls clean c1))
      \<and> escapeHTML (filterProfanityPreservingUrls clean c2) \<noteq> escapeHTML (filterProfanityPreservingUrls clean c1)
      \<and> escapeHTML (filterProfanityPreservingUrls clean c3) \<noteq> escapeHTML (filterProfanityPreservingUrls clean c2)
      \<and> escapeHTML (filterProfanityPreservingUrls clean c4) \<noteq> escapeHTML (filterProfanityPreservingUrls clean c3)
      \<longrightarrow>
        fst (burstRateLimit t1 s r (toLowerCase un)) = None
      \<and> status (fst (handleSendMessage clean isProfane t1 m1 s
                    \<lparr>sm_roomId = r, sm_username = un, sm_content = c1\<rparr>)) = 201
      \<and> status (fst (handleSendMessage clean isProfane t2 m2
                 (snd (handleSendMessage clean isProfane t1 m1 s
                    \<lparr>sm_roomId = r, sm_username = un, sm_content = c1\<rparr>))
                 \<lparr>sm_roomId = r, sm_username = un, sm_content = c2\<rparr>)) = 201
      \<and> status (fst (handleSendMessage clean isProfane t3 m3
              (snd (handleSendMessage clean isProfane t2 m2
                 (snd (handleSendMessage clean isProfane t1 m1 s
                    \<lparr>sm_roomId = r, sm_username = un, sm_content = c1\<rparr>))
                 \<lparr>sm_roomId = r, sm_username = un, sm_content = c2\<rparr>))
              \<lparr>sm_roomId = r, sm_username = un, sm_content = c3\<rparr>)) = 201
      \<and> status (fst (handleSendMessage clean isProfane t4 m4
           (snd (handleSendMessage clean isProfane t3 m3
              (snd (handleSendMessage clean isProfane t2 m2
                 (snd (handleSendMessage clean isProfane t1 m1 s
                    \<lparr>sm_roomId = r, sm_username = un, sm_content = c1\<rparr>))
                 \<lparr>sm_roomId = r, sm_username = un, sm_content = c2\<rparr>))
              \<lparr>sm_roomId = r, sm_username = un, sm_content = c3\<rparr>))
           \<lparr>sm_roomId = r, sm_username = un, sm_content = c4\<rparr>)) = 201
      \<and> rl (snd (handleSendMessage clean isProfane t4 m4
           (snd (handleSendMessage clean isProfane t3 m3
              (snd (handleSendMessage clean isProfane t2 m2
                 (snd (handleSendMessage clean isProfane t1 m1 s
                    \<lparr>sm_roomId = r, sm_username = un, sm_content = c1\<rparr>))
                 \<lparr>sm_roomId = r, sm_username = un, sm_content = c2\<rparr>))
              \<lparr>sm_roomId = r, sm_username = un, sm_content = c3\<rparr>))
           \<lparr>sm_roomId = r, sm_username = un, sm_content = c4\<rparr>)) = rl s)"
proof (intro conjI impI)
  show "CHAT_BURST_SHORT_LIMIT = 3" by (simp add: CHAT_BURST_SHORT_LIMIT_def)
  show "CHAT_BURST_SHORT_WINDOW_SECONDS = 10" by (simp add: CHAT_BURST_SHORT_WINDOW_SECONDS_def)
  show "CHAT_BURST_LONG_LIMIT = 20" by (simp add: CHAT_BURST_LONG_LIMIT_def)
  show "CHAT_BURST_LONG_WINDOW_SECONDS = 60" by (simp add: CHAT_BURST_LONG_WINDOW_SECONDS_def)
  show "CHAT_MIN_INTERVAL_SECONDS = 2" by (simp add: CHAT_MIN_INTERVAL_SECONDS_def)
  have r0: "kv_get t1 (chat_room s) (CHAT_ROOM_PREFIX @ r) = Some roomObj"
    using room by (rule kv_get_no_expiry)
  {
    assume pub: "room_type roomObj = None \<or> room_type roomObj = Some Public"
    show "fst (burstRateLimit t1 s r (toLowerCase un)) =
         (if CHAT_BURST_SHORT_LIMIT < nextCount t1 s (shortKey r (toLowerCase un))
            then Some (createErrorResponse ''You're sending messages too quickly. Please slow down.'' 429)
          else if CHAT_BURST_LONG_LIMIT < nextCount t1 s (longKey r (toLowerCase un))
            then Some (createErrorResponse ''Too many messages in a short period. Please wait a moment.'' 429)
          else if tooSoon t1 s (lastKey r (toLowerCase un))
            then Some (createErrorResponse ''Please wait a moment before sending another message.'' 429)
          else None)"
      by (rule burstRateLimit_public[OF r0 pub])
    show "\<forall>resp. fst (burstRateLimit t1 s r (toLowerCase un)) = Some resp \<longrightarrow>
           fst (handleSendMessage clean isProfane t1 m1 s \<lparr>sm_roomId = r, sm_username = un, sm_content = c1\<rparr>) = resp
         \<and> chat_messages (snd (handleSendMessage clean isProfane t1 m1 s
                \<lparr>sm_roomId = r, sm_username = un, sm_content = c1\<rparr>)) = chat_messages s"
      using handleSendMessage_limited(3)[OF vu vr ne(1)] handleSendMessage_limited_msgs[OF vu vr ne(1)]
      by blast
    assume t: "kv_get t1 (rl s) (shortKey r (toLowerCase un)) = None
          \<and> t2 < t1 + CHAT_BURST_SHORT_WINDOW_SECONDS * 1000
          \<and> t3 < t1 + CHAT_BURST_SHORT_WINDOW_SECONDS * 1000
          \<and> t4 < t1 + CHAT_BURST_SHORT_WINDOW_SECONDS * 1000"
    then have fresh: "kv_get t1 (rl s) (shortKey r (toLowerCase un)) = None"
      and times: "t2 < t1 + 10000" "t3 < t1 + 10000" "t4 < t1 + 10000"
      by (simp_all add: CHAT_BURST_SHORT_WINDOW_SECONDS_def)
    show "fst (handleSendMessage clean isProfane t4 m4
           (snd (handleSendMessage clean isProfane t3 m3
              (snd (handleSendMessage clean isProfane t2 m2
                 (snd (handleSendMessage clean isProfane t1 m1 s
                    \<lparr>sm_roomId = r, sm_username = un, sm_content = c1\<rparr>))
                 \<lparr>sm_roomId = r, sm_username = un, sm_content = c2\<rparr>))
              \<lparr>sm_roomId = r, sm_username = un, sm_content = c3\<rparr>))
           \<lparr>sm_roomId = r, sm_username = un, sm_content = c4\<rparr>)
         = createErrorResponse ''You're sending messages too quickly. Please slow down.'' 429"
      by (rule public_burst[OF vu vr ne room pub fresh times])
  }
  assume p: "room_type roomObj = Some Private
      \<and> \<not> isProfane (toLowerCase un)
      \<and> length (escapeHTML (filterProfanityPreservingUrls clean c1)) \<le> MAX_MESSAGE_LENGTH
      \<and> length (escapeHTML (filterProfanityPreservingUrls clean c2)) \<le> MAX_MESSAGE_LENGTH
      \<and> length (escapeHTML (filterProfanityPreservingUrls clean c3)) \<le> MAX_MESSAGE_LENGTH
      \<and> length (escapeHTML (filterProfanityPreservingUrls clean c4)) \<le> MAX_MESSAGE_LENGTH
      \<and> \<not> isDuplicate t1 s r (toLowerCase un) (escapeHTML (filterProfanityPreservingUrls clean c1))
      \<and> escapeHTML (filterProfanityPreservingUrls clean c2) \<noteq> escapeHTML (filterProfanityPreservingUrls clean c1)
      \<and> escapeHTML (filterProfanityPreservingUrls clean c3) \<noteq> escapeHTML (filterProfanityPreservingUrls clean c2)
      \<and> escapeHTML (filterProfanityPreservingUrls clean c4) \<noteq> escapeHTML (filterProfanityPreservingUrls clean c3)"
  then have priv: "room_type roomObj = Some Private" and np: "\<not> isProfane (toLowerCase un)"
    and len: "length (escapeHTML (filterProfanityPreservingUrls clean c1)) \<le> MAX_MESSAGE_LENGTH"
             "length (escapeHTML (filterProfanityPreservingUrls clean c2)) \<le> MAX_MESSAGE_LENGTH"
             "length (escapeHTML (filterProfanityPreservingUrls clean c3)) \<le> MAX_MESSAGE_LENGTH"
             "length (escapeHTML (filterProfanityPreservingUrls clean c4)) \<le> MAX_MESSAGE_LENGTH"
    and nd: "\<not> isDuplicate t1 s r (toLowerCase un) (escapeHTML (filterProfanityPreservingUrls clean c1))"
    and diff: "escapeHTML (filterProfanityPreservingUrls clean c2) \<noteq> escapeHTML (filterProfanityPreservingUrls clean c1)"
              "escapeHTML (filterProfanityPreservingUrls clean c3) \<noteq> escapeHTML (filterProfanityPreservingUrls clean c2)"
              "escapeHTML (filterProfanityPreservingUrls clean c4) \<noteq> escapeHTML (filterProfanityPreservingUrls clean c3)"
    by blast+
  show "fst (burstRateLimit t1 s r (toLowerCase un)) = None"
    using burstRateLimit_private[OF r0 priv] by simp
  note pb = private_burst[where isProfane=isProfane and clean=clean
               and ?m1.0=m1 and ?m2.0=m2 and ?m3.0=m3 and ?m4.0=m4
               and ?t1.0=t1 and ?t2.0=t2 and ?t3.0=t3 and ?t4.0=t4,
               OF vu vr np ne len room priv nd diff]
  from pb show "status (fst (handleSendMessage clean isProfane t1 m1 s
                    \<lparr>sm_roomId = r, sm_username = un, sm_content = c1\<rparr>)) = 201" by blast
  from pb show "status (fst (handleSendMessage clean isProfane t2 m2
                 (snd (handleSendMessage clean isProfane t1 m1 s
                    \<lparr>sm_roomId = r, sm_username = un, sm_content = c1\<rparr>))
                 \<lparr>sm_roomId = r, sm_username = un, sm_content = c2\<rparr>)) = 201" by blast
  from pb show "status (fst (handleSendMessage clean isProfane t3 m3
              (snd (handleSendMessage clean isProfane t2 m2
                 (snd (handleSendMessage clean isProfane t1 m1 s
                    \<lparr>sm_roomId = r, sm_username = un, sm_content = c1\<rparr>))
                 \<lparr>sm_roomId = r, sm_username = un, sm_content = c2\<rparr>))
              \<lparr>sm_roomId = r, sm_username = un, sm_content = c3\<rparr>)) = 201" by blast
  from pb show "status (fst (handleSendMessage clean isProfane t4 m4
           (snd (handleSendMessage clean isProfane t3 m3
              (snd (handleSendMessage clean isProfane t2 m2
                 (snd (handleSendMessage clean isProfane t1 m1 s
                    \<lparr>sm_roomId = r, sm_username = un, sm_content = c1\<rparr>))
                 \<lparr>sm_roomId = r, sm_username = un, sm_content = c2\<rparr>))
              \<lparr>sm_roomId = r, sm_username = un, sm_content = c3\<rparr>))
           \<lparr>sm_roomId = r, sm_username = un, sm_content = c4\<rparr>)) = 201" by blast
  from pb show "rl (snd (handleSendMessage clean isProfane t4 m4
           (snd (handleSendMessage clean isProfane t3 m3
              (snd (handleSendMessage clean isProfane t2 m2
                 (snd (handleSendMessage clean isProfane t1 m1 s
                    \<lparr>sm_roomId = r, sm_username = un, sm_content = c1\<rparr>))
                 \<lparr>sm_roomId = r, sm_username = un, sm_content = c2\<rparr>))
              \<lparr>sm_roomId = r, sm_username = un, sm_content = c3\<rparr>))
           \<lparr>sm_roomId = r, sm_username = un, sm_content = c4\<rparr>)) = rl s" by blast
qed

theorem burst_limiter_witness:
  "fst (burstRateLimit 5000 msgStore ''r0'' ''alice'')
      = Some (createErrorResponse ''Please wait a moment before sending another message.'' 429)
 \<and> fst (handleSendMessage (\<lambda>x. x) (\<lambda>x. False) 5300 ''m4''
       (snd (handleSendMessage (\<lambda>x. x) (\<lambda>x. False) 5200 ''m3''
          (snd (handleSendMessage (\<lambda>x. x) (\<lambda>x. False) 5100 ''m2''
             (snd (handleSendMessage (\<lambda>x. x) (\<lambda>x. False) 5000 ''m1'' (msgStore\<lparr>rl := []\<rparr>)
                \<lparr>sm_roomId = ''r0'', sm_username = ''Alice'', sm_content = ''ho''\<rparr>))
             \<lparr>sm_roomId = ''r0'', sm_username = ''Alice'', sm_content = ''hi''\<rparr>))
          \<lparr>sm_roomId = ''r0'', sm_username = ''Alice'', sm_content = ''ho''\<rparr>))
       \<lparr>sm_roomId = ''r0'', sm_username = ''Alice'', sm_content = ''hi''\<rparr>)
      = createErrorResponse ''You're sending messages too quickly. Please slow down.'' 429
 \<and> status (fst (handleSendMessage (\<lambda>x. x) (\<lambda>x. False) 5300 ''m4''
       (snd (handleSendMessage (\<lambda>x. x) (\<lambda>x. False) 5200 ''m3''
          (snd (handleSendMessage (\<lambda>x. x) (\<lambda>x. False) 5100 ''m2''
             (snd (handleSendMessage (\<lambda>x. x) (\<lambda>x. False) 5000 ''m1'' msgStore
                \<lparr>sm_roomId = ''r1'', sm_username = ''Alice'', sm_content = ''ho''\<rparr>))
             \<lparr>sm_roomId = ''r1'', sm_username = ''Alice'', sm_content = ''hi''\<rparr>))
          \<lparr>sm_roomId = ''r1'', sm_username = ''Alice'', sm_content = ''ho''\<rparr>))
       \<lparr>sm_roomId = ''r1'', sm_username = ''Alice'', sm_content = ''hi''\<rparr>)) = 201"
proof -
  let ?pub = "\<lparr>room_id = ''r0'', room_name = ''lobby'', room_type = Some Public,
                 createdAt = 0, userCount = 0, members = None\<rparr>"
  have vu: "USERNAME_REGEX_test (toLowerCase ''Alice'')" by (rule valid_alice)
  have ne: "''ho'' \<noteq> []" "''hi'' \<noteq> []" by simp_all
  have roomA: "map_of (chat_room msgStore) (CHAT_ROOM_PREFIX @ ''r0'') = Some (?pub, None)"
    by (simp add: msgStore_def emptyStore_def CHAT_ROOM_PREFIX_def)
  have roomB: "map_of (chat_room (msgStore\<lparr>rl := []\<rparr>)) (CHAT_ROOM_PREFIX @ ''r0'') = Some (?pub, None)"
    by (simp add: msgStore_def emptyStore_def CHAT_ROOM_PREFIX_def)
  have roomC: "map_of (chat_room msgStore) (CHAT_ROOM_PREFIX @ ''r1'') = Some (room2, None)"
    by (simp add: msgStore_def emptyStore_def CHAT_ROOM_PREFIX_def)
  have pub: "room_type ?pub = None \<or> room_type ?pub = Some Public" by simp
  have counts: "nextCount 5000 msgStore (shortKey ''r0'' ''alice'') = 2"
      "nextCount 5000 msgStore (longKey ''r0'' ''alice'') = 2"
      "tooSoon 5000 msgStore (lastKey ''r0'' ''alice'')"
    by (simp_all add: nextCount_def tooSoon_def shortKey_def longKey_def lastKey_def msgStore_def
          emptyStore_def kv_get_def live_def CHAT_BURST_PREFIX_def CHAT_MIN_INTERVAL_SECONDS_def)
  have a: "fst (burstRateLimit 5000 msgStore ''r0'' ''alice'')
      = Some (createErrorResponse ''Please wait a moment before sending another message.'' 429)"
    using burst_limiter[OF vu valid_r0 ne(1) ne(1) ne(1) ne(1) roomA, where ?t1.0 = 5000] pub counts
    by (simp add: lower_names CHAT_BURST_SHORT_LIMIT_def CHAT_BURST_LONG_LIMIT_def)
  have fresh: "kv_get 5000 (rl (msgStore\<lparr>rl := []\<rparr>)) (shortKey ''r0'' (toLowerCase ''Alice'')) = None"
    by (simp add: kv_get_def)
  have b: "fst (handleSendMessage (\<lambda>x. x) (\<lambda>x. False) 5300 ''m4''
       (snd (handleSendMessage (\<lambda>x. x) (\<lambda>x. False) 5200 ''m3''
          (snd (handleSendMessage (\<lambda>x. x) (\<lambda>x. False) 5100 ''m2''
             (snd (handleSendMessage (\<lambda>x. x) (\<lambda>x. False) 5000 ''m1'' (msgStore\<lparr>rl := []\<rparr>)
                \<lparr>sm_roomId = ''r0'', sm_username = ''Alice'', sm_content = ''ho''\<rparr>))
             \<lparr>sm_roomId = ''r0'', sm_username = ''Alice'', sm_content = ''hi''\<rparr>))
          \<lparr>sm_roomId = ''r0'', sm_username = ''Alice'', sm_content = ''ho''\<rparr>))
       \<lparr>sm_roomId = ''r0'', sm_username = ''Alice'', sm_content = ''hi''\<rparr>)
      = createErrorResponse ''You're sending messages too quickly. Please slow down.'' 429"
    using burst_limiter[OF vu valid_r0 ne(1) ne(2) ne(1) ne(2) roomB,
           where ?t1.0 = 5000 and ?t2.0 = 5100 and ?t3.0 = 5200 and ?t4.0 = 5300
             and clean = "\<lambda>x. x" and isProfane = "\<lambda>x. False"
             and ?m1.0 = "''m1''" and ?m2.0 = "''m2''" and ?m3.0 = "''m3''" and ?m4.0 = "''m4''"]
      pub fresh
    by (simp add: CHAT_BURST_SHORT_WINDOW_SECONDS_def)
  have nd: "\<not> isDuplicate 5000 msgStore ''r1'' (toLowerCase ''Alice'')
               (escapeHTML (filterProfanityPreservingUrls (\<lambda>x. x) ''ho''))"
    by (simp add: isDuplicate_def msgStore_head sanitize_ho hiMessage_def)
  have c: "status (fst (handleSendMessage (\<lambda>x. x) (\<lambda>x. False) 5300 ''m4''
       (snd (handleSendMessage (\<lambda>x. x) (\<lambda>x. False) 5200 ''m3''
          (snd (handleSendMessage (\<lambda>x. x) (\<lambda>x. False) 5100 ''m2''
             (snd (handleSendMessage (\<lambda>x. x) (\<lambda>x. False) 5000 ''m1'' msgStore
                \<lparr>sm_roomId = ''r1'', sm_username = ''Alice'', sm_content = ''ho''\<rparr>))
             \<lparr>sm_roomId = ''r1'', sm_username = ''Alice'', sm_content = ''hi''\<rparr>))
          \<lparr>sm_roomId = ''r1'', sm_username = ''Alice'', sm_content = ''ho''\<rparr>))
       \<lparr>sm_roomId = ''r1'', sm_username = ''Alice'', sm_content = ''hi''\<rparr>)) = 201"
    using burst_limiter[OF vu valid_rooms(1) ne(1) ne(2) ne(1) ne(2) roomC,
           where ?t1.0 = 5000 and ?t2.0 = 5100 and ?t3.0 = 5200 and ?t4.0 = 5300
             and clean = "\<lambda>x. x" and isProfane = "\<lambda>x. False"
             and ?m1.0 = "''m1''" and ?m2.0 = "''m2''" and ?m3.0 = "''m3''" and ?m4.0 = "''m4''"]
      nd room2_private
    by (simp add: sanitize_hi sanitize_ho MAX_MESSAGE_LENGTH_def)
  from a b c show ?thesis by blast
qed








end
